theory Spec2Isabelle
  imports Main "HOL-Library.Sublist"
begin

section \<open>The notebook \<open>examples/colossal_cifar_demo.ipynb\<close> as a program over an external framework\<close>

text \<open>
  The notebook is a sequence of code cells. Everything it does is either building plain
  Python data (numbers, strings, lists, dicts) or asking something outside the notebook to
  act: the shell (\<open>!pip install\<close>), the import system, or a callable of the imported
  libraries. The model keeps the first kind as values and records the second kind as
  events. What the outside answers is a parameter of the model, so every theorem that
  quantifies over it holds for whatever the libraries really do.
\<close>

subsection \<open>Values, calls and exceptions\<close>

text \<open>
  A float literal is kept as the decimal it is written as: \<open>VDec m d\<close> stands for
  \<open>m / 10^d\<close>, so \<open>0.4914\<close> is \<open>VDec 4914 4\<close>. \<open>VObj\<close> is a reference to an object
  that a library call returned; \<open>VInst\<close> is an instance of a class that the notebook
  itself defines, with its attributes.
\<close>

datatype 'o val =
    VNone
  | VBool bool
  | VInt int
  | VDec int nat
  | VStr string
  | VList "'o val list"
  | VDict "(string \<times> 'o val) list"
  | VObj 'o
  | VInst string "(string \<times> 'o val) list"

text \<open>
  \<open>Invoke f args kwargs\<close> calls the imported callable written \<open>f\<close> in the source;
  \<open>Method obj m args kwargs\<close> is \<open>obj.m(args, kwargs)\<close> for a method the notebook does
  not define.
\<close>

datatype 'o call =
    Shell string
  | Import string
  | ImportAs string string
  | ImportFrom string "string list"
  | Invoke string "'o val list" "(string \<times> 'o val) list"
  | Method "'o val" string "'o val list" "(string \<times> 'o val) list"

datatype exn = Exn string

type_synonym 'o event = "'o call \<times> (exn + 'o)"

text \<open>
  The outside world: its answer to the \<open>n\<close>-th request of a run. \<open>Inl\<close> is a raised
  exception (for the shell, a failed command), \<open>Inr\<close> the object returned.
\<close>

type_synonym 'o framework = "nat \<Rightarrow> 'o call \<Rightarrow> exn + 'o"

type_synonym ('o, 'a) prog = "'o framework \<Rightarrow> 'o event list \<Rightarrow> (exn + 'a) \<times> 'o event list"

definition ret :: "'a \<Rightarrow> ('o, 'a) prog" where
  "ret v = (\<lambda>fw tr. (Inr v, tr))"

text \<open>Python sequencing: an exception in the first part skips the rest.\<close>

definition bindM :: "('o, 'a) prog \<Rightarrow> ('a \<Rightarrow> ('o, 'b) prog) \<Rightarrow> ('o, 'b) prog" where
  "bindM m f = (\<lambda>fw tr. case m fw tr of
      (Inl e, tr') \<Rightarrow> (Inl e, tr')
    | (Inr v, tr') \<Rightarrow> f v fw tr')"

definition ext :: "'o call \<Rightarrow> ('o, 'o val) prog" where
  "ext c = (\<lambda>fw tr. case fw (length tr) c of
      Inl e \<Rightarrow> (Inl e, tr @ [(c, Inl e)])
    | Inr obj \<Rightarrow> (Inr (VObj obj), tr @ [(c, Inr obj)]))"

text \<open>
  IPython's \<open>!cmd\<close> runs the command and goes on whatever its exit status: no exception
  reaches the cell.
\<close>

definition shell :: "string \<Rightarrow> ('o, unit) prog" where
  "shell cmd = (\<lambda>fw tr. (Inr (), tr @ [(Shell cmd, fw (length tr) (Shell cmd))]))"

subsection \<open>The code cells\<close>

text \<open>
  One definition for each code cell, in the order of the file. A cell that binds names
  which a later cell uses returns them. Keyword arguments are kept in the order in
  which they are written.

  Cell 1: \<^verbatim>\<open>!pip install ColossalAI deepspeed\<close>. Cell 2: the five imports.
\<close>

definition cell1 :: "('o, unit) prog" where
  "cell1 = shell ''pip install ColossalAI deepspeed''"

definition cell2 :: "('o, unit) prog" where
  "cell2 =
     bindM (ext (Import ''colossalai'')) (\<lambda>_.
     bindM (ext (ImportFrom ''colossalai.engine'' [''Engine'', ''NoPipelineSchedule''])) (\<lambda>_.
     bindM (ext (ImportFrom ''colossalai.trainer'' [''Trainer''])) (\<lambda>_.
     bindM (ext (ImportFrom ''colossalai.context'' [''Config''])) (\<lambda>_.
     bindM (ext (Import ''torch'')) (\<lambda>_.
     ret ())))))"

text \<open>
  Cell 3: \<^verbatim>\<open>parallel_cfg = Config(dict(parallel=dict(data=dict(size=1),
  pipeline=dict(size=1), tensor=dict(size=1, mode=None))))\<close>, then
  \<^verbatim>\<open>colossalai.init_dist(config=parallel_cfg, local_rank=0, world_size=1,
  host='127.0.0.1', port=8888, backend='nccl')\<close>. \<open>dict(...)\<close> builds plain data.
\<close>

definition cell3 :: "('o, unit) prog" where
  "cell3 =
     bindM (ext (Invoke ''Config'' [VDict [(''parallel'', VDict [
         (''data'', VDict [(''size'', VInt 1)]),
         (''pipeline'', VDict [(''size'', VInt 1)]),
         (''tensor'', VDict [(''size'', VInt 1), (''mode'', VNone)])])]] [])) (\<lambda>parallel_cfg.
     bindM (ext (Invoke ''colossalai.init_dist'' [] [
         (''config'', parallel_cfg),
         (''local_rank'', VInt 0),
         (''world_size'', VInt 1),
         (''host'', VStr ''127.0.0.1''),
         (''port'', VInt 8888),
         (''backend'', VStr ''nccl'')])) (\<lambda>_.
     ret ()))"

text \<open>
  Cell 4: the globals \<open>transform_cfg\<close> and \<open>batch_size\<close>, then the two datasets and
  their loaders, the training pair first.
\<close>

definition transform_cfg :: "'o val" where
  "transform_cfg = VList [
     VDict [(''type'', VStr ''ToTensor'')],
     VDict [(''type'', VStr ''Normalize''),
            (''mean'', VList [VDec 4914 4, VDec 4822 4, VDec 4465 4]),
            (''std'', VList [VDec 2023 4, VDec 1994 4, VDec 2010 4])]]"

definition batch_size :: "'o val" where
  "batch_size = VInt 128"

definition cell4 :: "('o, 'o val \<times> 'o val) prog" where
  "cell4 =
     bindM (ext (Invoke ''colossalai.nn.data.CIFAR10Dataset'' [transform_cfg]
         [(''root'', VStr ''./data''), (''train'', VBool True)])) (\<lambda>trainset.
     bindM (ext (Invoke ''torch.utils.data.DataLoader'' [trainset]
         [(''batch_size'', batch_size), (''shuffle'', VBool True), (''num_workers'', VInt 2)])) (\<lambda>trainloader.
     bindM (ext (Invoke ''colossalai.nn.data.CIFAR10Dataset'' [transform_cfg]
         [(''root'', VStr ''./data''), (''train'', VBool False)])) (\<lambda>testset.
     bindM (ext (Invoke ''torch.utils.data.DataLoader'' [testset]
         [(''batch_size'', batch_size), (''shuffle'', VBool False), (''num_workers'', VInt 2)])) (\<lambda>testloader.
     ret (trainloader, testloader)))))"

text \<open>
  Cell 5: two imports, the class \<open>Net(nn.Module)\<close>, and \<^verbatim>\<open>model = Net().cuda()\<close>.
  The class statement asks nothing of the outside. An instance is a record of its six
  attributes; where the instance itself is handed to the library it is the value
  \<open>Net_val\<close>.
\<close>

record 'o Net =
  conv1 :: "'o val"
  pool :: "'o val"
  conv2 :: "'o val"
  fc1 :: "'o val"
  fc2 :: "'o val"
  fc3 :: "'o val"

definition Net_val :: "'o Net \<Rightarrow> 'o val" where
  "Net_val self = VInst ''Net'' [
     (''conv1'', conv1 self), (''pool'', pool self), (''conv2'', conv2 self),
     (''fc1'', fc1 self), (''fc2'', fc2 self), (''fc3'', fc3 self)]"

text \<open>
  \<open>Net.__init__\<close>, run by \<open>Net()\<close> on a fresh instance without attributes.
  \<^verbatim>\<open>super().__init__()\<close> is the initialiser of the base class \<open>nn.Module\<close>; the six
  assignments \<^verbatim>\<open>self.conv1 = nn.Conv2d(3, 6, 5)\<close>, \<^verbatim>\<open>self.pool = nn.MaxPool2d(2, 2)\<close>,
  \<^verbatim>\<open>self.conv2 = nn.Conv2d(6, 16, 5)\<close>, \<^verbatim>\<open>self.fc1 = nn.Linear(16 * 5 * 5, 120)\<close>,
  \<^verbatim>\<open>self.fc2 = nn.Linear(120, 84)\<close>, \<^verbatim>\<open>self.fc3 = nn.Linear(84, 10)\<close> fill the record.
\<close>

definition Net_init :: "('o, 'o Net) prog" where
  "Net_init =
     bindM (ext (Invoke ''nn.Module.__init__'' [VInst ''Net'' []] [])) (\<lambda>_.
     bindM (ext (Invoke ''nn.Conv2d'' [VInt 3, VInt 6, VInt 5] [])) (\<lambda>c1.
     bindM (ext (Invoke ''nn.MaxPool2d'' [VInt 2, VInt 2] [])) (\<lambda>p.
     bindM (ext (Invoke ''nn.Conv2d'' [VInt 6, VInt 16, VInt 5] [])) (\<lambda>c2.
     bindM (ext (Invoke ''nn.Linear'' [VInt (16 * 5 * 5), VInt 120] [])) (\<lambda>f1.
     bindM (ext (Invoke ''nn.Linear'' [VInt 120, VInt 84] [])) (\<lambda>f2.
     bindM (ext (Invoke ''nn.Linear'' [VInt 84, VInt 10] [])) (\<lambda>f3.
     ret \<lparr>conv1 = c1, pool = p, conv2 = c2, fc1 = f1, fc2 = f2, fc3 = f3\<rparr>)))))))"

text \<open>
  \<open>Net.forward\<close>. Calling a layer object is its \<open>__call__\<close>; in
  \<^verbatim>\<open>x = self.pool(F.relu(self.conv1(x)))\<close> the innermost call comes first. The body is
  that line, the same with \<open>conv2\<close>, \<^verbatim>\<open>x = torch.flatten(x, 1)\<close>,
  \<^verbatim>\<open>x = F.relu(self.fc1(x))\<close>, \<^verbatim>\<open>x = F.relu(self.fc2(x))\<close>, \<^verbatim>\<open>x = self.fc3(x)\<close>.
\<close>

definition forward :: "'o Net \<Rightarrow> 'o val \<Rightarrow> ('o, 'o val) prog" where
  "forward self x =
     bindM (ext (Method (conv1 self) ''__call__'' [x] [])) (\<lambda>x.
     bindM (ext (Invoke ''F.relu'' [x] [])) (\<lambda>x.
     bindM (ext (Method (pool self) ''__call__'' [x] [])) (\<lambda>x.
     bindM (ext (Method (conv2 self) ''__call__'' [x] [])) (\<lambda>x.
     bindM (ext (Invoke ''F.relu'' [x] [])) (\<lambda>x.
     bindM (ext (Method (pool self) ''__call__'' [x] [])) (\<lambda>x.
     bindM (ext (Invoke ''torch.flatten'' [x, VInt 1] [])) (\<lambda>x.
     bindM (ext (Method (fc1 self) ''__call__'' [x] [])) (\<lambda>x.
     bindM (ext (Invoke ''F.relu'' [x] [])) (\<lambda>x.
     bindM (ext (Method (fc2 self) ''__call__'' [x] [])) (\<lambda>x.
     bindM (ext (Invoke ''F.relu'' [x] [])) (\<lambda>x.
     bindM (ext (Method (fc3 self) ''__call__'' [x] [])) (\<lambda>x.
     ret x))))))))))))"

definition cell5 :: "('o, 'o val) prog" where
  "cell5 =
     bindM (ext (ImportAs ''torch.nn'' ''nn'')) (\<lambda>_.
     bindM (ext (ImportAs ''torch.nn.functional'' ''F'')) (\<lambda>_.
     bindM Net_init (\<lambda>net.
     bindM (ext (Method (Net_val net) ''cuda'' [] [])) (\<lambda>model.
     ret model))))"

text \<open>
  Cell 6: loss, optimizer (its first argument \<^verbatim>\<open>model.parameters()\<close> is evaluated
  before \<open>optim.SGD\<close> is called), schedule, engine and trainer.
\<close>

definition cell6 :: "'o val \<Rightarrow> ('o, 'o val) prog" where
  "cell6 model =
     bindM (ext (ImportAs ''torch.optim'' ''optim'')) (\<lambda>_.
     bindM (ext (Invoke ''nn.CrossEntropyLoss'' [] [])) (\<lambda>criterion.
     bindM (ext (Method model ''parameters'' [] [])) (\<lambda>params.
     bindM (ext (Invoke ''optim.SGD'' [params]
         [(''lr'', VDec 1 3), (''momentum'', VDec 9 1)])) (\<lambda>optimizer.
     bindM (ext (Invoke ''NoPipelineSchedule'' [] [])) (\<lambda>schedule.
     bindM (ext (Invoke ''Engine'' [] [
         (''model'', model),
         (''criterion'', criterion),
         (''optimizer'', optimizer),
         (''lr_scheduler'', VNone),
         (''schedule'', schedule)])) (\<lambda>engine.
     bindM (ext (Invoke ''Trainer'' [] [
         (''engine'', engine),
         (''hooks_cfg'', VList [VDict [(''type'', VStr ''LossHook'')],
                                VDict [(''type'', VStr ''LogMetricByEpochHook'')],
                                VDict [(''type'', VStr ''AccuracyHook'')]]),
         (''verbose'', VBool True)])) (\<lambda>trainer.
     ret trainer)))))))"

text \<open>Cell 7: the globals \<open>num_epochs\<close> and \<open>test_interval\<close>, then \<open>trainer.fit\<close>.\<close>

definition num_epochs :: "'o val" where
  "num_epochs = VInt 10"

definition test_interval :: "'o val" where
  "test_interval = VInt 1"

definition cell7 :: "'o val \<Rightarrow> 'o val \<Rightarrow> 'o val \<Rightarrow> ('o, unit) prog" where
  "cell7 trainer trainloader testloader =
     bindM (ext (Method trainer ''fit'' [] [
         (''train_dataloader'', trainloader),
         (''test_dataloader'', testloader),
         (''max_epochs'', num_epochs),
         (''display_progress'', VBool True),
         (''test_interval'', test_interval)])) (\<lambda>_.
     ret ())"

text \<open>
  Running the cells top to bottom. An exception in a cell ends the run: the cells below
  are not reached.
\<close>

definition notebook :: "('o, unit) prog" where
  "notebook =
     bindM cell1 (\<lambda>_.
     bindM cell2 (\<lambda>_.
     bindM cell3 (\<lambda>_.
     bindM cell4 (\<lambda>(trainloader, testloader).
     bindM cell5 (\<lambda>model.
     bindM (cell6 model) (\<lambda>trainer.
     cell7 trainer trainloader testloader))))))"

definition run :: "('o, 'a) prog \<Rightarrow> 'o framework \<Rightarrow> (exn + 'a) \<times> 'o event list" where
  "run p fw = p fw []"

subsection \<open>What the layers do with a tensor\<close>

text \<open>
  The definitions of this subsection are not code of the notebook. They write down, from
  the PyTorch documentation, what the calls made by \<open>Net\<close> return, as far as the shape
  of the result and the conditions for getting one are concerned.

  A tensor is kept as its element type, its device and its shape. A new tensor takes
  \<open>itemsize * prod_list shape\<close> bytes; the library counts bytes in signed 64-bit
  integers, so the count stays below \<open>2^63\<close>, and the allocator has to grant the block.
  Whether it does is the parameter \<open>granted\<close>: memory is not a thing the notebook decides.
\<close>

datatype dtype = Float32 | Float64 | Int64

datatype device = Cpu | Cuda

datatype torch_obj =
    Tensor dtype device "nat list"
  | Conv2d int int int
  | MaxPool2d int int
  | Linear int int
  | Other

definition raised :: "exn + torch_obj" where
  "raised = Inl (Exn ''raised by torch'')"

fun itemsize :: "dtype \<Rightarrow> nat" where
  "itemsize Float32 = 4"
| "itemsize Float64 = 8"
| "itemsize Int64 = 8"

definition nbytes :: "dtype \<Rightarrow> nat list \<Rightarrow> nat" where
  "nbytes dt s = itemsize dt * prod_list s"

definition new_tensor :: "(nat \<Rightarrow> bool) \<Rightarrow> dtype \<Rightarrow> device \<Rightarrow> nat list \<Rightarrow> exn + torch_obj" where
  "new_tensor granted dt dev s =
     (if nbytes dt s < 2 ^ 63 \<and> granted (nbytes dt s) then Inr (Tensor dt dev s) else raised)"

text \<open>
  The layers hold \<open>float32\<close> parameters on the device \<open>pdev\<close>. \<open>Conv2d cin cout k\<close>
  (stride 1, no padding) and \<open>Linear fin fout\<close> want a \<open>float32\<close> input on that device;
  \<open>Conv2d\<close> maps \<open>[n, cin, h, w]\<close> to \<open>[n, cout, h - k + 1, w - k + 1]\<close>, \<open>Linear\<close>
  replaces a last dimension \<open>fin\<close> by \<open>fout\<close>. \<open>MaxPool2d k st\<close> has no parameters, wants a
  floating element type and maps \<open>[n, c, h, w]\<close> to
  \<open>[n, c, (h - k) div st + 1, (w - k) div st + 1]\<close>. \<open>Conv2d\<close> and \<open>MaxPool2d\<close> take an
  input without the batch dimension as well. Anything that does not fit raises.
\<close>

definition layer_shape ::
  "device \<Rightarrow> (nat \<Rightarrow> bool) \<Rightarrow> torch_obj \<Rightarrow> dtype \<Rightarrow> device \<Rightarrow> nat list \<Rightarrow> exn + torch_obj" where
  "layer_shape pdev granted layer dt dev s = (case layer of
      Conv2d cin cout k \<Rightarrow>
        if dt = Float32 \<and> dev = pdev \<and> 0 < k then (case s of
            [n, c, h, w] \<Rightarrow>
              if int c = cin \<and> nat k \<le> h \<and> nat k \<le> w
              then new_tensor granted dt dev [n, nat cout, h - nat k + 1, w - nat k + 1]
              else raised
          | [c, h, w] \<Rightarrow>
              if int c = cin \<and> nat k \<le> h \<and> nat k \<le> w
              then new_tensor granted dt dev [nat cout, h - nat k + 1, w - nat k + 1]
              else raised
          | _ \<Rightarrow> raised)
        else raised
    | MaxPool2d k st \<Rightarrow>
        if dt \<noteq> Int64 \<and> 0 < k \<and> 0 < st then (case s of
            [n, c, h, w] \<Rightarrow>
              if nat k \<le> h \<and> nat k \<le> w
              then new_tensor granted dt dev
                     [n, c, (h - nat k) div nat st + 1, (w - nat k) div nat st + 1]
              else raised
          | [c, h, w] \<Rightarrow>
              if nat k \<le> h \<and> nat k \<le> w
              then new_tensor granted dt dev
                     [c, (h - nat k) div nat st + 1, (w - nat k) div nat st + 1]
              else raised
          | _ \<Rightarrow> raised)
        else raised
    | Linear fin fout \<Rightarrow>
        if dt = Float32 \<and> dev = pdev \<and> s \<noteq> [] \<and> int (last s) = fin
        then new_tensor granted dt dev (butlast s @ [nat fout])
        else raised
    | _ \<Rightarrow> raised)"

text \<open>
  \<open>torch.flatten(x, d)\<close> merges the dimensions from \<open>d\<close> on into one and allocates
  nothing; a negative \<open>d\<close> counts from the end, and a tensor without dimensions becomes
  one of shape \<open>[1]\<close>.
\<close>

definition flat_shape :: "nat list \<Rightarrow> int \<Rightarrow> nat list option" where
  "flat_shape s d =
     (let r = int (length s) in
      if r = 0 then (if d = 0 \<or> d = - 1 then Some [1] else None)
      else if - r \<le> d \<and> d < r
        then (let i = nat (if d < 0 then d + r else d)
              in Some (take i s @ [prod_list (drop i s)]))
        else None)"

text \<open>
  The calls of \<open>Net\<close>, in the forms in which \<open>Net\<close> makes them (positional arguments
  only). A layer size below zero raises when the layer is built; \<open>F.relu\<close> returns a new
  tensor of the same type, device and shape. \<open>grants n b\<close> says whether the allocator
  grants \<open>b\<close> bytes at the \<open>n\<close>-th request. Calls that \<open>Net\<close> does not make are not
  described: they answer \<open>Other\<close>.
\<close>

definition torch_shapes :: "device \<Rightarrow> (nat \<Rightarrow> nat \<Rightarrow> bool) \<Rightarrow> torch_obj framework" where
  "torch_shapes pdev grants n c = (case c of
      Invoke f args kw \<Rightarrow>
        (if kw \<noteq> [] then Inr Other
         else if f = ''nn.Conv2d'' then (case args of
             [VInt cin, VInt cout, VInt k] \<Rightarrow>
               if 0 \<le> cin \<and> 0 \<le> cout \<and> 0 \<le> k then Inr (Conv2d cin cout k) else raised
           | _ \<Rightarrow> raised)
         else if f = ''nn.MaxPool2d'' then (case args of
             [VInt k, VInt st] \<Rightarrow> Inr (MaxPool2d k st)
           | _ \<Rightarrow> raised)
         else if f = ''nn.Linear'' then (case args of
             [VInt fin, VInt fout] \<Rightarrow>
               if 0 \<le> fin \<and> 0 \<le> fout then Inr (Linear fin fout) else raised
           | _ \<Rightarrow> raised)
         else if f = ''F.relu'' then (case args of
             [VObj (Tensor dt dev s)] \<Rightarrow> new_tensor (grants n) dt dev s
           | _ \<Rightarrow> raised)
         else if f = ''torch.flatten'' then (case args of
             [VObj (Tensor dt dev s), VInt d] \<Rightarrow>
               (case flat_shape s d of Some s' \<Rightarrow> Inr (Tensor dt dev s') | None \<Rightarrow> raised)
           | _ \<Rightarrow> raised)
         else Inr Other)
    | Method (VObj layer) m [VObj (Tensor dt dev s)] kw \<Rightarrow>
        (if m = ''__call__'' \<and> kw = [] then layer_shape pdev (grants n) layer dt dev s
         else Inr Other)
    | _ \<Rightarrow> Inr Other)"

subsection \<open>Reading a call\<close>

fun callee :: "'o call \<Rightarrow> string" where
  "callee (Shell cmd) = cmd"
| "callee (Import m) = m"
| "callee (ImportAs m a) = m"
| "callee (ImportFrom m ns) = m"
| "callee (Invoke f args kw) = f"
| "callee (Method obj m args kw) = m"

fun posargs :: "'o call \<Rightarrow> 'o val list" where
  "posargs (Invoke f args kw) = args"
| "posargs (Method obj m args kw) = args"
| "posargs _ = []"

fun kwarg :: "'o call \<Rightarrow> string \<Rightarrow> 'o val option" where
  "kwarg (Invoke f args kw) k = map_of kw k"
| "kwarg (Method obj m args kw) k = map_of kw k"
| "kwarg _ k = None"

definition is_shell :: "'o call \<Rightarrow> bool" where
  "is_shell c = (case c of Shell _ \<Rightarrow> True | _ \<Rightarrow> False)"

definition calls_to :: "string \<Rightarrow> 'o event list \<Rightarrow> 'o call list" where
  "calls_to f tr = filter (\<lambda>c. callee c = f) (map fst tr)"

text \<open>\<open>d[k]\<close> and \<open>d['parallel'][g][k]\<close> on a dict literal.\<close>

definition item :: "'o val \<Rightarrow> string \<Rightarrow> 'o val option" where
  "item d k = (case d of VDict kvs \<Rightarrow> map_of kvs k | _ \<Rightarrow> None)"

definition parallel_entry :: "'o val \<Rightarrow> string \<Rightarrow> string \<Rightarrow> 'o val option" where
  "parallel_entry d g k = (case item d ''parallel'' of
      Some p \<Rightarrow> (case item p g of Some s \<Rightarrow> item s k | None \<Rightarrow> None)
    | None \<Rightarrow> None)"

text \<open>
  The names a run went through, in order: the command, the module or the callable of
  each event.
\<close>

definition steps :: "'o event list \<Rightarrow> string list" where
  "steps tr = map callee (map fst tr)"

text \<open>
  \<open>before a b ns\<close>: once \<open>b\<close> has happened \<open>a\<close> does not happen any more, and \<open>b\<close> does
  not happen unless \<open>a\<close> has.
\<close>

definition before :: "string \<Rightarrow> string \<Rightarrow> string list \<Rightarrow> bool" where
  "before a b ns = ((b \<in> set ns \<longrightarrow> a \<in> set (takeWhile (\<lambda>n. n \<noteq> b) ns))
     \<and> a \<notin> set (dropWhile (\<lambda>n. n \<noteq> b) ns))"

text \<open>
  Which names an import statement binds, and whether a call goes into imported code: the
  callable of an \<open>Invoke\<close> is reached from a name bound by an earlier import, and a
  method called on an instance of \<open>Net\<close> is not one of the two that \<open>Net\<close> defines.
\<close>

definition module_root :: "string \<Rightarrow> string" where
  "module_root f = takeWhile (\<lambda>ch. ch \<noteq> CHR ''.'') f"

fun binds :: "'o call \<Rightarrow> string list" where
  "binds (Import m) = [module_root m]"
| "binds (ImportAs m a) = [a]"
| "binds (ImportFrom m ns) = ns"
| "binds _ = []"

definition Net_methods :: "string list" where
  "Net_methods = [''__init__'', ''forward'']"

fun prebuilt :: "string list \<Rightarrow> 'o call \<Rightarrow> bool" where
  "prebuilt bound (Invoke f args kw) = (module_root f \<in> set bound)"
| "prebuilt bound (Method (VInst cls attrs) m args kw) = (m \<notin> set Net_methods)"
| "prebuilt bound _ = True"

fun prebuilt_only :: "string list \<Rightarrow> 'o call list \<Rightarrow> bool" where
  "prebuilt_only bound [] = True"
| "prebuilt_only bound (c # cs) = (prebuilt bound c \<and> prebuilt_only (binds c @ bound) cs)"

text \<open>
  \<open>torch.utils.data.DataLoader\<close>, from its documentation: without \<open>shuffle=True\<close> the
  samples \<open>0, \<dots>, n - 1\<close> are visited in this order in every pass; with it, in the order
  that the random sampler draws for the pass. The sampler is the parameter \<open>draw\<close>.
\<close>

definition sample_order :: "'o call \<Rightarrow> (nat \<Rightarrow> nat list \<Rightarrow> nat list) \<Rightarrow> nat \<Rightarrow> nat \<Rightarrow> nat list" where
  "sample_order loader draw pass n =
     (if kwarg loader ''shuffle'' = Some (VBool True) then draw pass [0..<n] else [0..<n])"

subsection \<open>The outputs stored in the notebook file\<close>

text \<open>
  The file keeps, for each code cell, the outputs of the run its author made. An output
  has one of four types; a \<open>stream\<close> output names its stream and holds text, of which the
  first line is kept here.
\<close>

datatype cell_output = StreamOut string string | DisplayData | ExecuteResult | ErrorOut



subsection \<open>The strings handed to the libraries\<close>

text \<open>
  A file, a directory, a host or a command can only be named to a library by a string.
  \<open>call_strings\<close> collects every string inside the arguments of a call.
\<close>

fun val_strings :: "'o val \<Rightarrow> string list" where
  "val_strings (VStr s) = [s]"
| "val_strings (VList vs) = concat (map val_strings vs)"
| "val_strings (VDict kvs) = concat (map (\<lambda>kv. val_strings (snd kv)) kvs)"
| "val_strings (VInst cls attrs) = concat (map (\<lambda>kv. val_strings (snd kv)) attrs)"
| "val_strings _ = []"

fun call_strings :: "'o call \<Rightarrow> string list" where
  "call_strings (Invoke f args kw) =
     concat (map val_strings args) @ concat (map (\<lambda>kv. val_strings (snd kv)) kw)"
| "call_strings (Method obj m args kw) =
     val_strings obj @ concat (map val_strings args) @ concat (map (\<lambda>kv. val_strings (snd kv)) kw)"
| "call_strings _ = []"

subsection \<open>Runs compared with a reference run\<close>

text \<open>
  \<open>fresh\<close> answers the \<open>n\<close>-th request with the number \<open>n\<close>, so in a run against it
  every object is named by the position of the call that made it. \<open>script\<close> is what the
  notebook asks for in that run, and \<open>obj_at tr k\<close> the object that the \<open>k\<close>-th event of
  a run \<open>tr\<close> returned.
\<close>

definition fresh :: "nat framework" where
  "fresh n c = Inr n"

definition script :: "nat call list" where
  "script = map fst (snd (run notebook fresh))"

definition obj_at :: "'o event list \<Rightarrow> nat \<Rightarrow> 'o" where
  "obj_at tr k = projr (snd (tr ! k))"

text \<open>
  \<open>answered\<close>: the trace holds what the outside answered. \<open>quiet\<close>: nothing raised
  (a failed shell command is not an exception). \<open>outcome\<close>: a run that ends in an
  exception made it in its last event and was quiet before. \<open>lawful\<close>: a program only
  appends to the trace, records the answers, and ends as \<open>outcome\<close> says.
\<close>

fun answered :: "'o framework \<Rightarrow> nat \<Rightarrow> 'o event list \<Rightarrow> bool" where
  "answered fw n [] = True"
| "answered fw n (ev # evs) = (snd ev = fw n (fst ev) \<and> answered fw (Suc n) evs)"

definition quiet :: "'o event list \<Rightarrow> bool" where
  "quiet evs = list_all (\<lambda>ev. is_shell (fst ev) \<or> isl (snd ev) = False) evs"

definition outcome :: "(exn + 'a) \<Rightarrow> 'o event list \<Rightarrow> bool" where
  "outcome r evs = (case r of
      Inr v \<Rightarrow> quiet evs
    | Inl e \<Rightarrow> evs \<noteq> [] \<and> quiet (butlast evs) \<and> snd (last evs) = Inl e
               \<and> \<not> is_shell (fst (last evs)))"

definition lawful :: "('o, 'a) prog \<Rightarrow> bool" where
  "lawful m = (\<forall>fw tr. \<exists>evs. snd (m fw tr) = tr @ evs \<and> answered fw (length tr) evs
     \<and> outcome (fst (m fw tr)) evs)"

text \<open>
  \<open>corr h R m m'\<close>: whenever \<open>h\<close> names the objects of a run of \<open>m\<close> by position, that
  run asks for what the reference run of \<open>m'\<close> asks for, up to \<open>h\<close> and as far as it gets.
\<close>

definition agrees :: "(nat \<Rightarrow> 'o) \<Rightarrow> 'o event list \<Rightarrow> bool" where
  "agrees h tr = (\<forall>k<length tr. \<forall>obj. snd (tr ! k) = Inr obj \<longrightarrow> h k = obj)"

definition corr :: "(nat \<Rightarrow> 'o) \<Rightarrow> ('a \<Rightarrow> 'b \<Rightarrow> bool) \<Rightarrow> ('o, 'a) prog \<Rightarrow> (nat, 'b) prog \<Rightarrow> bool" where
  "corr h R m m' = (\<forall>fw tr tr'. length tr' = length tr \<longrightarrow> agrees h (snd (m fw tr)) \<longrightarrow>
     (\<exists>evs evs' v'. snd (m fw tr) = tr @ evs \<and> m' fresh tr' = (Inr v', tr' @ evs')
        \<and> prefix (map fst evs) (map (map_call h \<circ> fst) evs')
        \<and> (\<forall>v. fst (m fw tr) = Inr v \<longrightarrow> length evs = length evs' \<and> R v v')))"

definition Net_rel :: "(nat \<Rightarrow> 'o) \<Rightarrow> 'o Net \<Rightarrow> nat Net \<Rightarrow> bool" where
  "Net_rel h n n' = (conv1 n = map_val h (conv1 n') \<and> pool n = map_val h (pool n')
     \<and> conv2 n = map_val h (conv2 n') \<and> fc1 n = map_val h (fc1 n')
     \<and> fc2 n = map_val h (fc2 n') \<and> fc3 n = map_val h (fc3 n'))"

text \<open>A framework whose \<open>n\<close>-th answer is the exception \<open>e\<close>.\<close>

definition failing_at :: "nat \<Rightarrow> exn \<Rightarrow> nat framework" where
  "failing_at n e = (\<lambda>k c. if k = n then Inl e else Inr k)"

section \<open>How programs of this kind behave\<close>

lemma ret_app: "ret v fw tr = (Inr v, tr)"
  by (simp add: ret_def)

lemma ext_app: "ext c fw tr = (case fw (length tr) c of
      Inl e \<Rightarrow> (Inl e, tr @ [(c, Inl e)])
    | Inr obj \<Rightarrow> (Inr (VObj obj), tr @ [(c, Inr obj)]))"
  by (simp add: ext_def)

lemma shell_app: "shell cmd fw tr = (Inr (), tr @ [(Shell cmd, fw (length tr) (Shell cmd))])"
  by (simp add: shell_def)

lemma bind_app: "bindM m f fw tr = (case m fw tr of
      (Inl e, tr') \<Rightarrow> (Inl e, tr')
    | (Inr v, tr') \<Rightarrow> f v fw tr')"
  by (simp add: bindM_def)

lemmas eval_simps = run_def bind_app ext_app shell_app ret_app

lemmas notebook_defs = notebook_def cell1_def cell2_def cell3_def cell4_def cell5_def cell6_def
  cell7_def Net_init_def Net_val_def transform_cfg_def batch_size_def num_epochs_def
  test_interval_def

lemma callee_map [simp]: "callee (map_call h c) = callee c"
  by (cases c) simp_all

lemma is_shell_map [simp]: "is_shell (map_call h c) = is_shell c"
  by (cases c) (simp_all add: is_shell_def)

lemma binds_map [simp]: "binds (map_call h c) = binds c"
  by (cases c) simp_all

lemma prebuilt_map [simp]: "prebuilt bound (map_call h c) = prebuilt bound c"
proof (cases c)
  case (Method obj m args kw)
  then show ?thesis by (cases obj) simp_all
qed simp_all

lemma prebuilt_only_map [simp]: "prebuilt_only bound (map (map_call h) cs) = prebuilt_only bound cs"
  by (induction cs arbitrary: bound) simp_all

lemma prebuilt_only_append: "prebuilt_only bound (xs @ ys) \<Longrightarrow> prebuilt_only bound xs"
  by (induction xs arbitrary: bound) simp_all

lemma prebuilt_only_prefix: "prefix xs ys \<Longrightarrow> prebuilt_only bound ys \<Longrightarrow> prebuilt_only bound xs"
  by (auto simp: prefix_def dest: prebuilt_only_append)

subsection \<open>Lawful programs\<close>

lemma answered_append:
  "answered fw n (xs @ ys) = (answered fw n xs \<and> answered fw (n + length xs) ys)"
  by (induction xs arbitrary: n) auto

lemma answered_nth: "answered fw n evs \<Longrightarrow> k < length evs \<Longrightarrow> snd (evs ! k) = fw (n + k) (fst (evs ! k))"
proof (induction evs arbitrary: n k)
  case Nil
  then show ?case by simp
next
  case (Cons ev evs)
  show ?case
  proof (cases k)
    case 0
    then show ?thesis using Cons.prems by simp
  next
    case (Suc j)
    then show ?thesis using Cons.prems Cons.IH [of "Suc n" j] by simp
  qed
qed

lemma lawful_ret: "lawful (ret v)"
  by (simp add: lawful_def ret_app outcome_def quiet_def)

lemma lawful_ext: "\<not> is_shell c \<Longrightarrow> lawful (ext c)"
  by (auto simp: lawful_def ext_app outcome_def quiet_def split: sum.splits)

lemma lawful_shell: "lawful (shell cmd)"
  by (auto simp: lawful_def shell_app outcome_def quiet_def is_shell_def)

lemma lawful_bind:
  assumes m: "lawful m" and f: "\<And>x. lawful (f x)"
  shows "lawful (bindM m f)"
  unfolding lawful_def
proof (intro allI)
  fix fw tr
  from m obtain evs1 where e1: "snd (m fw tr) = tr @ evs1" "answered fw (length tr) evs1"
    "outcome (fst (m fw tr)) evs1" unfolding lawful_def by blast
  show "\<exists>evs. snd (bindM m f fw tr) = tr @ evs \<and> answered fw (length tr) evs
      \<and> outcome (fst (bindM m f fw tr)) evs"
  proof (cases "fst (m fw tr)")
    case (Inl e)
    then have "bindM m f fw tr = (Inl e, tr @ evs1)"
      using e1(1) by (cases "m fw tr") (simp add: bind_app)
    then show ?thesis using e1 Inl by (auto simp: outcome_def)
  next
    case (Inr x)
    then have b: "bindM m f fw tr = f x fw (tr @ evs1)"
      using e1(1) by (cases "m fw tr") (simp add: bind_app)
    from f [of x] obtain evs2 where e2: "snd (f x fw (tr @ evs1)) = (tr @ evs1) @ evs2"
      "answered fw (length (tr @ evs1)) evs2" "outcome (fst (f x fw (tr @ evs1))) evs2"
      unfolding lawful_def by blast
    have q1: "quiet evs1" using e1(3) Inr by (simp add: outcome_def)
    have "outcome (fst (f x fw (tr @ evs1))) (evs1 @ evs2)"
      using e2(3) q1 by (auto simp: outcome_def quiet_def butlast_append split: sum.splits)
    then show ?thesis
      using b e1 e2 by (intro exI [of _ "evs1 @ evs2"]) (simp add: answered_append)
  qed
qed

lemmas lawful_intros = lawful_bind lawful_ext lawful_ret lawful_shell

lemma lawful_run:
  assumes "lawful m"
  shows "answered fw 0 (snd (run m fw))" and "outcome (fst (run m fw)) (snd (run m fw))"
  using assms unfolding lawful_def run_def by (metis append_Nil list.size(3))+

lemma quiet_nth:
  "quiet evs \<Longrightarrow> k < length evs \<Longrightarrow> \<not> is_shell (fst (evs ! k)) \<Longrightarrow> \<exists>obj. snd (evs ! k) = Inr obj"
  unfolding quiet_def list_all_length by (cases "snd (evs ! k)") auto

lemma outcome_nth:
  assumes "outcome r evs" and "k < length evs" and "\<not> is_shell (fst (evs ! k))"
    and "Suc k < length evs \<or> (\<exists>v. r = Inr v)"
  shows "\<exists>obj. snd (evs ! k) = Inr obj"
proof (cases r)
  case (Inr v)
  then show ?thesis using assms quiet_nth by (auto simp: outcome_def)
next
  case (Inl e)
  then have q: "quiet (butlast evs)" and "Suc k < length evs"
    using assms by (auto simp: outcome_def)
  then have "k < length (butlast evs)" by simp
  then show ?thesis using quiet_nth [OF q, of k] assms(3) by (simp add: nth_butlast)
qed

text \<open>
  In a lawful program an exception is the end of the run and its result, and the result
  is what the outside answered.
\<close>

lemma lawful_raise_ends:
  assumes "lawful m" and "k < length (snd (run m fw))"
    and "snd (snd (run m fw) ! k) = Inl e" and "\<not> is_shell (fst (snd (run m fw) ! k))"
  shows "fst (run m fw) = Inl e \<and> Suc k = length (snd (run m fw))"
proof -
  let ?tr = "snd (run m fw)"
  have o: "outcome (fst (run m fw)) ?tr" by (rule lawful_run(2) [OF assms(1)])
  have last: "\<not> Suc k < length ?tr \<and> (\<forall>v. fst (run m fw) \<noteq> Inr v)"
    using outcome_nth [OF o assms(2) assms(4)] assms(3) by auto
  then have k: "Suc k = length ?tr" using assms(2) by simp
  from last obtain e' where e': "fst (run m fw) = Inl e'" by (cases "fst (run m fw)") auto
  then have "snd (last ?tr) = Inl e'" and "?tr \<noteq> []" using o by (auto simp: outcome_def)
  moreover have "last ?tr = ?tr ! k"
  proof -
    have "k = length ?tr - 1" using k by arith
    then show ?thesis using \<open>?tr \<noteq> []\<close> by (simp add: last_conv_nth)
  qed
  ultimately show ?thesis using assms(3) e' k by simp
qed

lemma lawful_result_raised:
  assumes "lawful m" and "fst (run m fw) = Inl e"
  shows "snd (run m fw) \<noteq> [] \<and> snd (last (snd (run m fw))) = Inl e
    \<and> fw (length (snd (run m fw)) - 1) (fst (last (snd (run m fw)))) = Inl e"
proof -
  let ?tr = "snd (run m fw)"
  have o: "outcome (fst (run m fw)) ?tr" by (rule lawful_run(2) [OF assms(1)])
  then have ne: "?tr \<noteq> []" and l: "snd (last ?tr) = Inl e" using assms(2) by (auto simp: outcome_def)
  have "snd (?tr ! (length ?tr - 1)) = fw (0 + (length ?tr - 1)) (fst (?tr ! (length ?tr - 1)))"
    using ne by (intro answered_nth [OF lawful_run(1) [OF assms(1)]]) simp
  then show ?thesis using ne l by (simp add: last_conv_nth)
qed

subsection \<open>Runs against the reference framework\<close>

lemma answered_fresh_quiet: "answered fresh n evs \<Longrightarrow> list_all (\<lambda>ev. isl (snd ev) = False) evs"
  by (induction evs arbitrary: n) (auto simp: fresh_def)

lemma lawful_fresh:
  assumes "lawful m"
  shows "\<exists>v evs. m fresh tr = (Inr v, tr @ evs)"
proof -
  from assms obtain evs where e: "snd (m fresh tr) = tr @ evs" "answered fresh (length tr) evs"
    "outcome (fst (m fresh tr)) evs" unfolding lawful_def by blast
  have ok: "list_all (\<lambda>ev. isl (snd ev) = False) evs" using e(2) by (rule answered_fresh_quiet)
  show ?thesis
  proof (cases "fst (m fresh tr)")
    case (Inl ex)
    then have "evs \<noteq> []" "snd (last evs) = Inl ex" using e(3) by (auto simp: outcome_def)
    then have "last evs \<in> set evs" "isl (snd (last evs))" by auto
    then show ?thesis using ok by (auto simp: list_all_iff)
  next
    case (Inr v)
    then show ?thesis using e(1) by (cases "m fresh tr") auto
  qed
qed

lemma agrees_appendD: "agrees h (tr @ evs) \<Longrightarrow> agrees h tr"
  unfolding agrees_def by (metis length_append nth_append trans_less_add1)

lemma corr_ret: "R v v' \<Longrightarrow> corr h R (ret v) (ret v')"
  by (simp add: corr_def ret_app)

lemma corr_shell: "corr h (\<lambda>_ _. True) (shell cmd) (shell cmd)"
  by (simp add: corr_def shell_app fresh_def)

lemma corr_ext:
  assumes "c = map_call h c'"
  shows "corr h (\<lambda>v v'. v = map_val h v') (ext c) (ext c')"
  unfolding corr_def
proof (intro allI impI)
  fix fw tr and tr' :: "nat event list"
  assume len: "length tr' = length tr" and ag: "agrees h (snd (ext c fw tr))"
  show "\<exists>evs evs' v'. snd (ext c fw tr) = tr @ evs \<and> ext c' fresh tr' = (Inr v', tr' @ evs')
        \<and> prefix (map fst evs) (map (map_call h \<circ> fst) evs')
        \<and> (\<forall>v. fst (ext c fw tr) = Inr v \<longrightarrow> length evs = length evs' \<and> v = map_val h v')"
  proof (cases "fw (length tr) c")
    case (Inl e)
    then show ?thesis using assms by (simp add: ext_app fresh_def)
  next
    case (Inr obj)
    then have "snd (ext c fw tr) = tr @ [(c, Inr obj)]" by (simp add: ext_app)
    with ag have "h (length tr) = obj" unfolding agrees_def
      by (metis length_append_singleton lessI nth_append_length snd_conv)
    then show ?thesis using Inr assms len by (simp add: ext_app fresh_def)
  qed
qed

lemma corr_bind:
  assumes f: "\<And>x. lawful (f x)" and f': "\<And>x'. lawful (f' x')"
    and m: "corr h R1 m m'" and k: "\<And>x x'. R1 x x' \<Longrightarrow> corr h R2 (f x) (f' x')"
  shows "corr h R2 (bindM m f) (bindM m' f')"
  unfolding corr_def
proof (intro allI impI)
  fix fw tr and tr' :: "nat event list"
  assume len: "length tr' = length tr" and ag: "agrees h (snd (bindM m f fw tr))"
  obtain r1 tr1 where mr: "m fw tr = (r1, tr1)" by (cases "m fw tr")
  show "\<exists>evs evs' v'. snd (bindM m f fw tr) = tr @ evs
        \<and> bindM m' f' fresh tr' = (Inr v', tr' @ evs')
        \<and> prefix (map fst evs) (map (map_call h \<circ> fst) evs')
        \<and> (\<forall>v. fst (bindM m f fw tr) = Inr v \<longrightarrow> length evs = length evs' \<and> R2 v v')"
  proof (cases r1)
    case (Inl e)
    then have b: "bindM m f fw tr = (Inl e, tr1)" using mr by (simp add: bind_app)
    then have "agrees h (snd (m fw tr))" using ag mr by simp
    with m len obtain evs1 evs1' v1' where c1: "snd (m fw tr) = tr @ evs1"
      "m' fresh tr' = (Inr v1', tr' @ evs1')"
      "prefix (map fst evs1) (map (map_call h \<circ> fst) evs1')"
      unfolding corr_def by blast
    from lawful_fresh [OF f', of v1' "tr' @ evs1'"] obtain v2' evs2' where
      c2: "f' v1' fresh (tr' @ evs1') = (Inr v2', (tr' @ evs1') @ evs2')" by blast
    have "bindM m' f' fresh tr' = (Inr v2', tr' @ (evs1' @ evs2'))"
      using c1(2) c2 by (simp add: bind_app)
    moreover have "prefix (map fst evs1) (map (map_call h \<circ> fst) (evs1' @ evs2'))"
      using c1(3) by (simp add: prefix_order.trans)
    ultimately show ?thesis using b c1(1) mr by auto
  next
    case (Inr x)
    then have b: "bindM m f fw tr = f x fw tr1" using mr by (simp add: bind_app)
    from f [of x] obtain evs2 where e2: "snd (f x fw tr1) = tr1 @ evs2"
      unfolding lawful_def by blast
    then have "agrees h tr1" using ag b agrees_appendD by metis
    then have "agrees h (snd (m fw tr))" using mr by simp
    with m len obtain evs1 evs1' v1' where c1: "snd (m fw tr) = tr @ evs1"
      "m' fresh tr' = (Inr v1', tr' @ evs1')"
      "prefix (map fst evs1) (map (map_call h \<circ> fst) evs1')"
      "length evs1 = length evs1'" "R1 x v1'"
      unfolding corr_def using mr Inr by (metis fst_conv)
    have eq1: "map fst evs1 = map (map_call h \<circ> fst) evs1'"
    proof -
      from c1(3) obtain zs where z: "map (map_call h \<circ> fst) evs1' = map fst evs1 @ zs"
        by (auto simp: prefix_def)
      then have "length (map (map_call h \<circ> fst) evs1') = length (map fst evs1 @ zs)" by simp
      then have "zs = []" using c1(4) by simp
      then show ?thesis using z by simp
    qed
    have t1: "tr1 = tr @ evs1" using c1(1) mr by simp
    have "agrees h (snd (f x fw (tr @ evs1)))" using ag b t1 by simp
    moreover have "length (tr' @ evs1') = length (tr @ evs1)" using len c1(4) by simp
    ultimately obtain evs2a evs2' v2' where
      c2: "snd (f x fw (tr @ evs1)) = (tr @ evs1) @ evs2a"
      "f' v1' fresh (tr' @ evs1') = (Inr v2', (tr' @ evs1') @ evs2')"
      "prefix (map fst evs2a) (map (map_call h \<circ> fst) evs2')"
      "\<forall>v. fst (f x fw (tr @ evs1)) = Inr v \<longrightarrow> length evs2a = length evs2' \<and> R2 v v2'"
      using k [OF c1(5)] unfolding corr_def by blast
    have "bindM m' f' fresh tr' = (Inr v2', tr' @ (evs1' @ evs2'))"
      using c1(2) c2(2) by (simp add: bind_app)
    moreover have "snd (bindM m f fw tr) = tr @ (evs1 @ evs2a)" using b t1 c2(1) by simp
    moreover have "prefix (map fst (evs1 @ evs2a)) (map (map_call h \<circ> fst) (evs1' @ evs2'))"
      using eq1 c2(3) by simp
    moreover have "\<forall>v. fst (bindM m f fw tr) = Inr v
        \<longrightarrow> length (evs1 @ evs2a) = length (evs1' @ evs2') \<and> R2 v v2'"
      using b t1 c2(4) c1(4) by simp
    ultimately show ?thesis by blast
  qed
qed

lemma corr_bind_ext:
  assumes "c = map_call h c'" and "\<And>x. lawful (f x)" and "\<And>x'. lawful (f' x')"
    and "\<And>x x'. x = map_val h x' \<Longrightarrow> corr h R (f x) (f' x')"
  shows "corr h R (bindM (ext c) f) (bindM (ext c') f')"
  using assms(2,3) corr_ext [OF assms(1)] assms(4) by (rule corr_bind)

lemmas corr_intros = corr_bind_ext corr_ret

lemma corr_run:
  assumes c: "\<And>h. corr h (R h) m m'"
  shows "prefix (map fst (snd (run m fw)))
           (map (map_call (obj_at (snd (run m fw)))) (map fst (snd (run m' fresh))))"
    and "fst (run m fw) = Inr v \<Longrightarrow> length (snd (run m fw)) = length (snd (run m' fresh))"
proof -
  let ?h = "obj_at (snd (run m fw))"
  have ag: "agrees ?h (snd (m fw []))" by (simp add: agrees_def obj_at_def run_def)
  from c [of ?h] ag obtain evs evs' v' where
    e: "snd (m fw []) = [] @ evs" "m' fresh [] = (Inr v', [] @ evs')"
       "prefix (map fst evs) (map (map_call ?h \<circ> fst) evs')"
       "\<forall>v. fst (m fw []) = Inr v \<longrightarrow> length evs = length evs' \<and> R ?h v v'"
    unfolding corr_def by (metis list.size(3))
  show "prefix (map fst (snd (run m fw))) (map (map_call ?h) (map fst (snd (run m' fresh))))"
    using e(1,2,3) by (simp add: run_def)
  show "fst (run m fw) = Inr v \<Longrightarrow> length (snd (run m fw)) = length (snd (run m' fresh))"
    using e(1,2,4) by (simp add: run_def)
qed

section \<open>The notebook's cells are such programs\<close>

lemma lawful_cell1: "lawful cell1"
  unfolding cell1_def by (rule lawful_shell)

lemma lawful_cell2: "lawful cell2"
  unfolding cell2_def by (intro lawful_intros) (simp_all add: is_shell_def)

lemma lawful_cell3: "lawful cell3"
  unfolding cell3_def by (intro lawful_intros) (simp_all add: is_shell_def)

lemma lawful_cell4: "lawful cell4"
  unfolding cell4_def by (intro lawful_intros) (simp_all add: is_shell_def)

lemma lawful_Net_init: "lawful Net_init"
  unfolding Net_init_def by (intro lawful_intros) (simp_all add: is_shell_def)

lemma lawful_cell5: "lawful cell5"
  unfolding cell5_def by (intro lawful_intros lawful_Net_init) (simp_all add: is_shell_def)

lemma lawful_cell6: "lawful (cell6 model)"
  unfolding cell6_def by (intro lawful_intros) (simp_all add: is_shell_def)

lemma lawful_cell7: "lawful (cell7 trainer trainloader testloader)"
  unfolding cell7_def by (intro lawful_intros) (simp_all add: is_shell_def)

lemma lawful_forward: "lawful (forward self x)"
  unfolding forward_def by (intro lawful_intros) (simp_all add: is_shell_def)

lemmas lawful_cells = lawful_cell1 lawful_cell2 lawful_cell3 lawful_cell4 lawful_cell5
  lawful_cell6 lawful_cell7

lemma lawful_notebook: "lawful notebook"
  unfolding notebook_def
  by (intro lawful_bind lawful_cells) (auto intro: lawful_intros lawful_cells)

lemma corr_cell1: "corr h (\<lambda>_ _. True) cell1 cell1"
  unfolding cell1_def by (rule corr_shell)

lemma corr_cell2: "corr h (\<lambda>_ _. True) cell2 cell2"
  unfolding cell2_def by (intro corr_intros lawful_intros) (simp_all add: is_shell_def)

lemma corr_cell3: "corr h (\<lambda>_ _. True) cell3 cell3"
  unfolding cell3_def by (intro corr_intros lawful_intros) (simp_all add: is_shell_def)

lemma corr_cell4:
  "corr h (\<lambda>p p'. fst p = map_val h (fst p') \<and> snd p = map_val h (snd p')) cell4 cell4"
  unfolding cell4_def
  by (intro corr_intros lawful_intros)
     (simp_all add: is_shell_def transform_cfg_def batch_size_def)

lemma corr_Net_init: "corr h (Net_rel h) Net_init Net_init"
  unfolding Net_init_def
  by (intro corr_intros lawful_intros) (simp_all add: is_shell_def Net_rel_def)

lemma corr_cell5: "corr h (\<lambda>v v'. v = map_val h v') cell5 cell5"
  unfolding cell5_def
  by (intro corr_intros lawful_intros lawful_Net_init corr_bind [OF _ _ corr_Net_init])
     (simp_all add: is_shell_def Net_rel_def Net_val_def)

lemma corr_cell6:
  "model = map_val h model' \<Longrightarrow> corr h (\<lambda>v v'. v = map_val h v') (cell6 model) (cell6 model')"
  unfolding cell6_def by (intro corr_intros lawful_intros) (simp_all add: is_shell_def)

lemma corr_cell7:
  "trainer = map_val h trainer' \<Longrightarrow> trainloader = map_val h trainloader' \<Longrightarrow>
   testloader = map_val h testloader' \<Longrightarrow>
   corr h (\<lambda>_ _. True) (cell7 trainer trainloader testloader)
     (cell7 trainer' trainloader' testloader')"
  unfolding cell7_def
  by (intro corr_intros lawful_intros)
     (simp_all add: is_shell_def num_epochs_def test_interval_def)

lemma corr_notebook: "corr h (\<lambda>_ _. True) notebook notebook"
  unfolding notebook_def
  apply (rule corr_bind [OF _ _ corr_cell1])
    apply (auto intro!: lawful_intros lawful_cells)[2]
  apply (rule corr_bind [OF _ _ corr_cell2])
    apply (auto intro!: lawful_intros lawful_cells)[2]
  apply (rule corr_bind [OF _ _ corr_cell3])
    apply (auto intro!: lawful_intros lawful_cells)[2]
  apply (rule corr_bind [OF _ _ corr_cell4])
    apply (auto intro!: lawful_intros lawful_cells)[2]
  apply clarsimp
  apply (rule corr_bind [OF _ _ corr_cell5])
    apply (auto intro!: lawful_intros lawful_cells)[2]
  apply (rule corr_bind [OF _ _ corr_cell6])
     apply (auto intro!: lawful_intros lawful_cells)[3]
  apply (rule corr_cell7)
    apply simp_all
  done

section \<open>What every run of the notebook asks for\<close>

text \<open>
  The reference run, in full. In it \<open>VObj k\<close> is the object that event \<open>k\<close> returned:
  \<open>VObj 6\<close> in the call of \<open>colossalai.init_dist\<close> is the \<open>Config\<close> object.
\<close>

lemma script_eq: "script = [
   Shell ''pip install ColossalAI deepspeed'',
   Import ''colossalai'',
   ImportFrom ''colossalai.engine'' [''Engine'', ''NoPipelineSchedule''],
   ImportFrom ''colossalai.trainer'' [''Trainer''],
   ImportFrom ''colossalai.context'' [''Config''],
   Import ''torch'',
   Invoke ''Config'' [VDict [(''parallel'', VDict [
       (''data'', VDict [(''size'', VInt 1)]),
       (''pipeline'', VDict [(''size'', VInt 1)]),
       (''tensor'', VDict [(''size'', VInt 1), (''mode'', VNone)])])]] [],
   Invoke ''colossalai.init_dist'' [] [(''config'', VObj 6), (''local_rank'', VInt 0),
       (''world_size'', VInt 1), (''host'', VStr ''127.0.0.1''), (''port'', VInt 8888),
       (''backend'', VStr ''nccl'')],
   Invoke ''colossalai.nn.data.CIFAR10Dataset'' [transform_cfg]
       [(''root'', VStr ''./data''), (''train'', VBool True)],
   Invoke ''torch.utils.data.DataLoader'' [VObj 8]
       [(''batch_size'', VInt 128), (''shuffle'', VBool True), (''num_workers'', VInt 2)],
   Invoke ''colossalai.nn.data.CIFAR10Dataset'' [transform_cfg]
       [(''root'', VStr ''./data''), (''train'', VBool False)],
   Invoke ''torch.utils.data.DataLoader'' [VObj 10]
       [(''batch_size'', VInt 128), (''shuffle'', VBool False), (''num_workers'', VInt 2)],
   ImportAs ''torch.nn'' ''nn'',
   ImportAs ''torch.nn.functional'' ''F'',
   Invoke ''nn.Module.__init__'' [VInst ''Net'' []] [],
   Invoke ''nn.Conv2d'' [VInt 3, VInt 6, VInt 5] [],
   Invoke ''nn.MaxPool2d'' [VInt 2, VInt 2] [],
   Invoke ''nn.Conv2d'' [VInt 6, VInt 16, VInt 5] [],
   Invoke ''nn.Linear'' [VInt 400, VInt 120] [],
   Invoke ''nn.Linear'' [VInt 120, VInt 84] [],
   Invoke ''nn.Linear'' [VInt 84, VInt 10] [],
   Method (VInst ''Net'' [(''conv1'', VObj 15), (''pool'', VObj 16), (''conv2'', VObj 17),
       (''fc1'', VObj 18), (''fc2'', VObj 19), (''fc3'', VObj 20)]) ''cuda'' [] [],
   ImportAs ''torch.optim'' ''optim'',
   Invoke ''nn.CrossEntropyLoss'' [] [],
   Method (VObj 21) ''parameters'' [] [],
   Invoke ''optim.SGD'' [VObj 24] [(''lr'', VDec 1 3), (''momentum'', VDec 9 1)],
   Invoke ''NoPipelineSchedule'' [] [],
   Invoke ''Engine'' [] [(''model'', VObj 21), (''criterion'', VObj 23),
       (''optimizer'', VObj 25), (''lr_scheduler'', VNone), (''schedule'', VObj 26)],
   Invoke ''Trainer'' [] [(''engine'', VObj 27),
       (''hooks_cfg'', VList [VDict [(''type'', VStr ''LossHook'')],
                              VDict [(''type'', VStr ''LogMetricByEpochHook'')],
                              VDict [(''type'', VStr ''AccuracyHook'')]]),
       (''verbose'', VBool True)],
   Method (VObj 28) ''fit'' [] [(''train_dataloader'', VObj 9), (''test_dataloader'', VObj 11),
       (''max_epochs'', VInt 10), (''display_progress'', VBool True),
       (''test_interval'', VInt 1)]]"
  by (simp add: script_def notebook_defs eval_simps fresh_def)

lemma run_fresh: "fst (run notebook fresh) = Inr ()"
  by (simp add: notebook_defs eval_simps fresh_def)

lemma script_length: "length script = 30"
  by (simp add: script_eq)

lemma nth_enumerate_mem: "k < length xs \<Longrightarrow> (k, xs ! k) \<in> set (enumerate 0 xs)"
  by (simp add: in_set_enumerate_eq)

lemma script_shell: "(k, c) \<in> set (enumerate 0 script) \<Longrightarrow> is_shell c \<Longrightarrow> k = 0"
  by (auto simp: script_eq is_shell_def)

lemma script_scope:
  "(k, c) \<in> set (enumerate 0 script) \<Longrightarrow> j \<in> set_call c \<Longrightarrow> 0 < j \<and> j < k"
  by (auto simp: script_eq transform_cfg_def)

lemma prefix_nth: "prefix xs ys \<Longrightarrow> k < length xs \<Longrightarrow> k < length ys \<and> xs ! k = ys ! k"
  by (auto simp: prefix_def nth_append)

lemma prefix_same_length: "prefix xs ys \<Longrightarrow> length xs = length ys \<Longrightarrow> xs = ys"
  by (auto simp: prefix_def)

lemma notebook_prefix:
  "prefix (map fst (snd (run notebook fw))) (map (map_call (obj_at (snd (run notebook fw)))) script)"
  unfolding script_def by (rule corr_run(1) [OF corr_notebook])

lemma notebook_length: "length (snd (run notebook fw)) \<le> 30"
  using prefix_length_le [OF notebook_prefix, of fw] by (simp add: script_length)

lemma notebook_complete:
  assumes "fst (run notebook fw) = Inr ()"
  shows "map fst (snd (run notebook fw)) = map (map_call (obj_at (snd (run notebook fw)))) script"
proof -
  have "length (snd (run notebook fw)) = length script"
    unfolding script_def using corr_run(2) [OF corr_notebook assms] by simp
  then show ?thesis by (intro prefix_same_length [OF notebook_prefix]) simp
qed

lemma notebook_call:
  assumes "k < length (snd (run notebook fw))"
  shows "k < 30"
    and "fst (snd (run notebook fw) ! k) = map_call (obj_at (snd (run notebook fw))) (script ! k)"
  using prefix_nth [OF notebook_prefix, of k fw] assms by (simp_all add: script_length)

lemma notebook_result:
  assumes "k < length (snd (run notebook fw))" and "0 < k"
    and "Suc k < length (snd (run notebook fw)) \<or> fst (run notebook fw) = Inr ()"
  shows "snd (snd (run notebook fw) ! k) = Inr (obj_at (snd (run notebook fw)) k)"
proof -
  let ?tr = "snd (run notebook fw)"
  have "\<not> is_shell (script ! k)"
    using script_shell [OF nth_enumerate_mem, of k] notebook_call(1) [OF assms(1)] assms(2)
    by (auto simp: script_length)
  then have "\<not> is_shell (fst (?tr ! k))" using notebook_call(2) [OF assms(1)] by simp
  with outcome_nth [OF lawful_run(2) [OF lawful_notebook], of k fw] assms
  obtain obj where "snd (?tr ! k) = Inr obj" by auto
  then show ?thesis by (simp add: obj_at_def)
qed

lemma notebook_event:
  assumes "k < length (snd (run notebook fw))" and "0 < k"
    and "Suc k < length (snd (run notebook fw)) \<or> fst (run notebook fw) = Inr ()"
  shows "(map_call (obj_at (snd (run notebook fw))) (script ! k),
          Inr (obj_at (snd (run notebook fw)) k)) \<in> set (snd (run notebook fw))"
proof -
  have "snd (run notebook fw) ! k = (map_call (obj_at (snd (run notebook fw))) (script ! k),
          Inr (obj_at (snd (run notebook fw)) k))"
    using notebook_call(2) [OF assms(1)] notebook_result [OF assms] by (simp add: prod_eq_iff)
  then show ?thesis using assms(1) by (metis nth_mem)
qed

lemma notebook_call_mem:
  assumes "c \<in> set (map fst (snd (run notebook fw)))"
  shows "\<exists>c' \<in> set script. c = map_call (obj_at (snd (run notebook fw))) c'"
  using set_mono_prefix [OF notebook_prefix, of fw] assms by auto

lemma filter_callee_map:
  "filter (\<lambda>c. callee c = f) (map (map_call h) cs) = map (map_call h) (filter (\<lambda>c. callee c = f) cs)"
  by (induction cs) simp_all

lemma notebook_calls_to:
  "prefix (calls_to f (snd (run notebook fw)))
     (map (map_call (obj_at (snd (run notebook fw)))) (filter (\<lambda>c. callee c = f) script))"
  unfolding calls_to_def
  using filter_mono_prefix [OF notebook_prefix, of "\<lambda>c. callee c = f" fw]
  by (simp add: filter_callee_map)

lemma notebook_calls_to_complete:
  assumes "fst (run notebook fw) = Inr ()"
  shows "calls_to f (snd (run notebook fw))
     = map (map_call (obj_at (snd (run notebook fw)))) (filter (\<lambda>c. callee c = f) script)"
  unfolding calls_to_def notebook_complete [OF assms] by (rule filter_callee_map)

lemma calls_toD: "c \<in> set (calls_to f tr) \<Longrightarrow> \<exists>k<length tr. fst (tr ! k) = c \<and> callee c = f"
  by (fastforce simp: calls_to_def in_set_conv_nth)

lemma notebook_steps: "prefix (steps (snd (run notebook fw))) (map callee script)"
proof -
  have "prefix (map callee (map fst (snd (run notebook fw))))
          (map callee (map (map_call (obj_at (snd (run notebook fw)))) script))"
    by (rule map_mono_prefix [OF notebook_prefix])
  then show ?thesis by (simp add: steps_def comp_def)
qed

lemma notebook_steps_complete:
  "fst (run notebook fw) = Inr () \<Longrightarrow> steps (snd (run notebook fw)) = map callee script"
  by (simp add: steps_def notebook_complete comp_def)

lemma notebook_prebuilt: "prebuilt_only [] (map fst (snd (run notebook fw)))"
proof -
  have "prebuilt_only [] script"
    by (simp add: script_eq module_root_def Net_methods_def)
  then have "prebuilt_only [] (map (map_call (obj_at (snd (run notebook fw)))) script)" by simp
  then show ?thesis by (rule prebuilt_only_prefix [OF notebook_prefix])
qed

lemma prefix_singleton: "prefix xs [a] \<Longrightarrow> xs = [] \<or> xs = [a]"
  by (cases xs) auto

lemma script_at_6: "script ! 6 = Invoke ''Config'' [VDict [(''parallel'', VDict [
       (''data'', VDict [(''size'', VInt 1)]),
       (''pipeline'', VDict [(''size'', VInt 1)]),
       (''tensor'', VDict [(''size'', VInt 1), (''mode'', VNone)])])]] []"
  by (simp add: script_eq)

lemma script_init_dist: "filter (\<lambda>c. callee c = ''colossalai.init_dist'') script =
    [Invoke ''colossalai.init_dist'' [] [(''config'', VObj 6), (''local_rank'', VInt 0),
       (''world_size'', VInt 1), (''host'', VStr ''127.0.0.1''), (''port'', VInt 8888),
       (''backend'', VStr ''nccl'')]]"
  by (simp add: script_eq)

lemma script_init_dist_at:
  "(k, c) \<in> set (enumerate 0 script) \<Longrightarrow> callee c = ''colossalai.init_dist'' \<Longrightarrow> k = 7"
  by (auto simp: script_eq)

lemma script_fit: "filter (\<lambda>c. callee c = ''fit'') script =
    [Method (VObj 28) ''fit'' [] [(''train_dataloader'', VObj 9), (''test_dataloader'', VObj 11),
       (''max_epochs'', VInt 10), (''display_progress'', VBool True),
       (''test_interval'', VInt 1)]]"
  by (simp add: script_eq)

lemma script_datasets: "filter (\<lambda>c. callee c = ''colossalai.nn.data.CIFAR10Dataset'') script =
    [Invoke ''colossalai.nn.data.CIFAR10Dataset'' [transform_cfg]
       [(''root'', VStr ''./data''), (''train'', VBool True)],
     Invoke ''colossalai.nn.data.CIFAR10Dataset'' [transform_cfg]
       [(''root'', VStr ''./data''), (''train'', VBool False)]]"
  by (simp add: script_eq)

lemma script_fresh: "map fst (snd (run notebook fresh)) = script"
  by (simp add: script_def)

section \<open>The claims\<close>

text \<open>
  C1. The notebook configures a single-process run. In every run, whatever the libraries
  answer, a call of \<open>colossalai.init_dist\<close> passes \<open>world_size = 1\<close>, and its \<open>config\<close> is
  the object that an earlier call \<open>Config(d)\<close> returned, where in \<open>d\<close> the data, pipeline
  and tensor group sizes are 1 and the tensor mode is \<open>None\<close>. A run that completes makes
  this call exactly once.
\<close>

theorem init_dist_single_process:
  "(\<forall>c \<in> set (calls_to ''colossalai.init_dist'' (snd (run notebook fw))).
      kwarg c ''world_size'' = Some (VInt 1) \<and>
      (\<exists>cfg d. kwarg c ''config'' = Some (VObj cfg) \<and>
         (Invoke ''Config'' [d] [], Inr cfg) \<in> set (snd (run notebook fw)) \<and>
         parallel_entry d ''data'' ''size'' = Some (VInt 1) \<and>
         parallel_entry d ''pipeline'' ''size'' = Some (VInt 1) \<and>
         parallel_entry d ''tensor'' ''size'' = Some (VInt 1) \<and>
         parallel_entry d ''tensor'' ''mode'' = Some VNone)) \<and>
   (fst (run notebook fw) = Inr () \<longrightarrow>
      length (calls_to ''colossalai.init_dist'' (snd (run notebook fw))) = 1)"
proof (intro conjI ballI impI)
  let ?tr = "snd (run notebook fw)"
  let ?h = "obj_at ?tr"
  fix c
  assume "c \<in> set (calls_to ''colossalai.init_dist'' ?tr)"
  from calls_toD [OF this] obtain k where k: "k < length ?tr" "fst (?tr ! k) = c"
    "callee c = ''colossalai.init_dist''" by blast
  have "callee (script ! k) = ''colossalai.init_dist''"
    using notebook_call(2) [OF k(1)] k(2,3) by (metis callee_map)
  then have k7: "k = 7"
    using script_init_dist_at [OF nth_enumerate_mem, of k] notebook_call(1) [OF k(1)]
    by (simp add: script_length)
  have c: "c = map_call ?h (script ! 7)" using notebook_call(2) [OF k(1)] k(2) k7 by simp
  have "6 < length ?tr" and "Suc 6 < length ?tr \<or> fst (run notebook fw) = Inr ()"
    using k(1) k7 by simp_all
  then have cfg: "(map_call ?h (script ! 6), Inr (?h 6)) \<in> set ?tr"
    by (intro notebook_event) simp_all
  show "kwarg c ''world_size'' = Some (VInt 1)"
    unfolding c by (simp add: script_eq)
  show "\<exists>cfg d. kwarg c ''config'' = Some (VObj cfg) \<and>
         (Invoke ''Config'' [d] [], Inr cfg) \<in> set ?tr \<and>
         parallel_entry d ''data'' ''size'' = Some (VInt 1) \<and>
         parallel_entry d ''pipeline'' ''size'' = Some (VInt 1) \<and>
         parallel_entry d ''tensor'' ''size'' = Some (VInt 1) \<and>
         parallel_entry d ''tensor'' ''mode'' = Some VNone"
  proof (intro exI conjI)
    show "kwarg c ''config'' = Some (VObj (?h 6))" unfolding c by (simp add: script_eq)
    show "(Invoke ''Config'' [map_val ?h (VDict [(''parallel'', VDict [
       (''data'', VDict [(''size'', VInt 1)]),
       (''pipeline'', VDict [(''size'', VInt 1)]),
       (''tensor'', VDict [(''size'', VInt 1), (''mode'', VNone)])])])] [], Inr (?h 6)) \<in> set ?tr"
      using cfg unfolding script_at_6 by simp
  qed (simp_all add: parallel_entry_def item_def)
next
  assume "fst (run notebook fw) = Inr ()"
  then show "length (calls_to ''colossalai.init_dist'' (snd (run notebook fw))) = 1"
    by (simp add: notebook_calls_to_complete script_init_dist)
qed

theorem init_dist_single_process_witness:
  "fst (run notebook fresh) = Inr () \<and>
   calls_to ''colossalai.init_dist'' (snd (run notebook fresh)) =
     [Invoke ''colossalai.init_dist'' [] [(''config'', VObj 6), (''local_rank'', VInt 0),
       (''world_size'', VInt 1), (''host'', VStr ''127.0.0.1''), (''port'', VInt 8888),
       (''backend'', VStr ''nccl'')]] \<and>
   kwarg (hd (calls_to ''colossalai.init_dist'' (snd (run notebook fresh)))) ''world_size''
     = Some (VInt 1) \<and>
   length (calls_to ''colossalai.init_dist'' (snd (run notebook fresh))) = 1"
  using init_dist_single_process [of fresh] run_fresh
  by (simp add: calls_to_def script_fresh script_init_dist)

text \<open>
  C2. Training runs for a number of epochs fixed before the loop starts. No run calls
  \<open>fit\<close> more than once; every call of \<open>fit\<close> passes \<open>max_epochs = 10\<close> and
  \<open>test_interval = 1\<close>, whatever the libraries answered before; a run that completes
  has called it exactly once, with these five keyword arguments.
\<close>

theorem fit_once_with_ten_epochs:
  "length (calls_to ''fit'' (snd (run notebook fw))) \<le> 1 \<and>
   (\<forall>c \<in> set (calls_to ''fit'' (snd (run notebook fw))).
      kwarg c ''max_epochs'' = Some (VInt 10) \<and> kwarg c ''test_interval'' = Some (VInt 1)) \<and>
   (fst (run notebook fw) = Inr () \<longrightarrow>
      (\<exists>trainer trainloader testloader. calls_to ''fit'' (snd (run notebook fw)) =
         [Method trainer ''fit'' [] [(''train_dataloader'', trainloader),
            (''test_dataloader'', testloader), (''max_epochs'', VInt 10),
            (''display_progress'', VBool True), (''test_interval'', VInt 1)]]))"
proof -
  let ?tr = "snd (run notebook fw)"
  let ?h = "obj_at ?tr"
  let ?fit = "Method (VObj (?h 28)) ''fit'' [] [(''train_dataloader'', VObj (?h 9)),
     (''test_dataloader'', VObj (?h 11)), (''max_epochs'', VInt 10),
     (''display_progress'', VBool True), (''test_interval'', VInt 1)]"
  have "prefix (calls_to ''fit'' ?tr) [?fit]"
    using notebook_calls_to [of "''fit''" fw] by (simp add: script_fit)
  then have cases: "calls_to ''fit'' ?tr = [] \<or> calls_to ''fit'' ?tr = [?fit]"
    by (rule prefix_singleton)
  have complete: "calls_to ''fit'' ?tr = [?fit]" if "fst (run notebook fw) = Inr ()"
    using notebook_calls_to_complete [OF that, of "''fit''"] by (simp add: script_fit)
  show ?thesis using cases complete by auto
qed

theorem fit_once_with_ten_epochs_witness:
  "fst (run notebook fresh) = Inr () \<and>
   calls_to ''fit'' (snd (run notebook fresh)) =
     [Method (VObj 28) ''fit'' [] [(''train_dataloader'', VObj 9), (''test_dataloader'', VObj 11),
        (''max_epochs'', VInt 10), (''display_progress'', VBool True),
        (''test_interval'', VInt 1)]] \<and>
   length (calls_to ''fit'' (snd (run notebook fresh))) \<le> 1"
  using fit_once_with_ten_epochs [of fresh] run_fresh
  by (simp add: calls_to_def script_fresh script_fit)

text \<open>
  C5. Both splits are loaded, with the same transforms. Every call of \<open>CIFAR10Dataset\<close>,
  in every run, passes the list \<open>ToTensor\<close>, then \<open>Normalize\<close> with the mean and std
  written in the notebook; the calls are at most two, the first with \<open>train=True\<close> and
  the second with \<open>train=False\<close>, and a run that completes has made both.
\<close>

theorem both_splits_same_transform:
  "(\<forall>c \<in> set (calls_to ''colossalai.nn.data.CIFAR10Dataset'' (snd (run notebook fw))).
      posargs c = [VList [
        VDict [(''type'', VStr ''ToTensor'')],
        VDict [(''type'', VStr ''Normalize''),
               (''mean'', VList [VDec 4914 4, VDec 4822 4, VDec 4465 4]),
               (''std'', VList [VDec 2023 4, VDec 1994 4, VDec 2010 4])]]]) \<and>
   prefix (map (\<lambda>c. kwarg c ''train'')
             (calls_to ''colossalai.nn.data.CIFAR10Dataset'' (snd (run notebook fw))))
          [Some (VBool True), Some (VBool False)] \<and>
   (fst (run notebook fw) = Inr () \<longrightarrow>
      map (\<lambda>c. kwarg c ''train'')
        (calls_to ''colossalai.nn.data.CIFAR10Dataset'' (snd (run notebook fw)))
      = [Some (VBool True), Some (VBool False)])"
proof -
  let ?tr = "snd (run notebook fw)"
  let ?h = "obj_at ?tr"
  let ?ds = "calls_to ''colossalai.nn.data.CIFAR10Dataset'' ?tr"
  let ?ref = "map (map_call ?h) (filter (\<lambda>c. callee c = ''colossalai.nn.data.CIFAR10Dataset'') script)"
  have p: "prefix ?ds ?ref" by (rule notebook_calls_to)
  have "set ?ds \<subseteq> set ?ref" by (rule set_mono_prefix [OF p])
  then have a: "\<forall>c \<in> set ?ds. posargs c = [VList [
        VDict [(''type'', VStr ''ToTensor'')],
        VDict [(''type'', VStr ''Normalize''),
               (''mean'', VList [VDec 4914 4, VDec 4822 4, VDec 4465 4]),
               (''std'', VList [VDec 2023 4, VDec 1994 4, VDec 2010 4])]]]"
    by (auto simp: script_datasets transform_cfg_def)
  have "prefix (map (\<lambda>c. kwarg c ''train'') ?ds) (map (\<lambda>c. kwarg c ''train'') ?ref)"
    by (rule map_mono_prefix [OF p])
  then have b: "prefix (map (\<lambda>c. kwarg c ''train'') ?ds) [Some (VBool True), Some (VBool False)]"
    by (simp add: script_datasets)
  have c: "map (\<lambda>c. kwarg c ''train'') ?ds = [Some (VBool True), Some (VBool False)]"
    if "fst (run notebook fw) = Inr ()"
    by (simp add: notebook_calls_to_complete [OF that] script_datasets)
  show ?thesis using a b c by blast
qed

theorem both_splits_same_transform_witness:
  "fst (run notebook fresh) = Inr () \<and>
   map posargs (calls_to ''colossalai.nn.data.CIFAR10Dataset'' (snd (run notebook fresh))) =
     [[transform_cfg], [transform_cfg]] \<and>
   map (\<lambda>c. kwarg c ''train'')
     (calls_to ''colossalai.nn.data.CIFAR10Dataset'' (snd (run notebook fresh)))
   = [Some (VBool True), Some (VBool False)]"
  using both_splits_same_transform [of fresh] run_fresh
  by (simp add: calls_to_def script_fresh script_datasets)

lemmas shape_simps = torch_shapes_def layer_shape_def flat_shape_def raised_def Net_init_def
  forward_def

lemma new_tensor_granted:
  assumes "nbytes dt s \<le> B" and "B < 2 ^ 63" and "\<forall>k b. b \<le> B \<longrightarrow> grants k b"
  shows "new_tensor (grants n) dt dev s = Inr (Tensor dt dev s)"
  using assms by (simp add: new_tensor_def)

text \<open>
  C3, as stated, speaks of every input tensor of shape \<open>[N, 3, 32, 32]\<close>. Three inputs of
  that shape on which \<open>forward\<close> raises, even with an allocator that grants everything:
  a \<open>float32\<close> batch of \<open>490187714543728\<close> images, whose own byte count is below \<open>2^63\<close>
  while that of the output of \<open>conv1\<close> is not; one image of 64-bit integers; and one
  \<open>float32\<close> image that is not on the device of the layers.
\<close>

theorem forward_shape_counterexample:
  "nbytes Float32 [490187714543728, 3, 32, 32] < 2 ^ 63 \<and>
   \<not> nbytes Float32 [490187714543728, 6, 28, 28] < 2 ^ 63 \<and>
   fst (run (bindM Net_init (\<lambda>self. forward self
          (VObj (Tensor Float32 Cpu [490187714543728, 3, 32, 32]))))
        (torch_shapes Cpu (\<lambda>k b. True))) = Inl (Exn ''raised by torch'') \<and>
   fst (run (bindM Net_init (\<lambda>self. forward self (VObj (Tensor Int64 Cpu [1, 3, 32, 32]))))
        (torch_shapes Cpu (\<lambda>k b. True))) = Inl (Exn ''raised by torch'') \<and>
   fst (run (bindM Net_init (\<lambda>self. forward self (VObj (Tensor Float32 Cpu [1, 3, 32, 32]))))
        (torch_shapes Cuda (\<lambda>k b. True))) = Inl (Exn ''raised by torch'')"
  by (simp add: eval_simps shape_simps new_tensor_def nbytes_def)

text \<open>
  C3, amended. Let the input be a \<open>float32\<close> tensor of shape \<open>[N, 3, 32, 32]\<close> on the
  device of the layers, and let the library be able to allocate the tensors on the way:
  the largest is the output of \<open>conv1\<close>, of \<open>N * 18816\<close> bytes, which has to stay below
  \<open>2^63\<close> and be granted, as every smaller block. Then building \<open>Net\<close> and applying
  \<open>forward\<close> raises nothing and returns a tensor of shape \<open>[N, 10]\<close>. The objects returned
  along the way are listed: after the second pooling the shape is \<open>[N, 16, 5, 5]\<close>,
  flattening gives \<open>[N, 400]\<close>, and \<open>fc1\<close> is \<open>Linear 400 120\<close>.
\<close>

theorem forward_shape:
  assumes "N * 18816 < 2 ^ 63" and "\<forall>k b. b \<le> N * 18816 \<longrightarrow> grants k b"
  shows
  "fst (run (bindM Net_init (\<lambda>self. forward self (VObj (Tensor Float32 dev [N, 3, 32, 32]))))
       (torch_shapes dev grants))
     = Inr (VObj (Tensor Float32 dev [N, 10])) \<and>
   map snd (snd (run (bindM Net_init (\<lambda>self. forward self (VObj (Tensor Float32 dev [N, 3, 32, 32]))))
       (torch_shapes dev grants)))
     = map Inr [Other, Conv2d 3 6 5, MaxPool2d 2 2, Conv2d 6 16 5, Linear 400 120,
         Linear 120 84, Linear 84 10,
         Tensor Float32 dev [N, 6, 28, 28], Tensor Float32 dev [N, 6, 28, 28],
         Tensor Float32 dev [N, 6, 14, 14],
         Tensor Float32 dev [N, 16, 10, 10], Tensor Float32 dev [N, 16, 10, 10],
         Tensor Float32 dev [N, 16, 5, 5],
         Tensor Float32 dev [N, 400],
         Tensor Float32 dev [N, 120], Tensor Float32 dev [N, 120],
         Tensor Float32 dev [N, 84], Tensor Float32 dev [N, 84], Tensor Float32 dev [N, 10]]"
proof -
  have new: "new_tensor (grants n) Float32 dev s = Inr (Tensor Float32 dev s)"
    if "nbytes Float32 s \<le> N * 18816" for n s
    using that assms by (rule new_tensor_granted)
  have sizes: "nbytes Float32 [N, 6, 28, 28] \<le> N * 18816"
    "nbytes Float32 [N, 6, 14, 14] \<le> N * 18816"
    "nbytes Float32 [N, 16, 10, 10] \<le> N * 18816"
    "nbytes Float32 [N, 16, 5, 5] \<le> N * 18816"
    "nbytes Float32 [N, 120] \<le> N * 18816"
    "nbytes Float32 [N, 84] \<le> N * 18816"
    "nbytes Float32 [N, 10] \<le> N * 18816"
    by (simp_all add: nbytes_def)
  note made = sizes [THEN new]
  show ?thesis
    by (simp add: eval_simps shape_simps made)
qed

theorem forward_shape_witness:
  "(128::nat) * 18816 < 2 ^ 63 \<and>
   fst (run (bindM Net_init (\<lambda>self. forward self (VObj (Tensor Float32 Cuda [128, 3, 32, 32]))))
       (torch_shapes Cuda (\<lambda>k b. True)))
     = Inr (VObj (Tensor Float32 Cuda [128, 10]))"
proof -
  have a: "(128::nat) * 18816 < 2 ^ 63" by simp
  have b: "\<forall>k b. b \<le> (128::nat) * 18816 \<longrightarrow> (\<lambda>k b. True) k b" by simp
  from forward_shape [OF a b, of Cuda] show ?thesis using a by blast
qed

text \<open>
  C6. Nothing in the notebook catches an exception. In every run, the first exception
  that a library raises ends the run and is the run's result, unchanged; and a run
  that ends in an exception got it as the answer to its last request. The same holds
  inside \<open>Net.forward\<close>. (The shell command of the first cell raises nothing in Python
  when it fails, so its failure is not an exception to propagate.)
\<close>

theorem errors_propagate_unchanged:
  "(\<forall>k e. k < length (snd (run notebook fw)) \<and> snd (snd (run notebook fw) ! k) = Inl e
        \<and> \<not> is_shell (fst (snd (run notebook fw) ! k))
      \<longrightarrow> fst (run notebook fw) = Inl e \<and> Suc k = length (snd (run notebook fw))) \<and>
   (\<forall>e. fst (run notebook fw) = Inl e
      \<longrightarrow> snd (run notebook fw) \<noteq> [] \<and> snd (last (snd (run notebook fw))) = Inl e
        \<and> fw (length (snd (run notebook fw)) - 1) (fst (last (snd (run notebook fw)))) = Inl e) \<and>
   (\<forall>k e. k < length (snd (run (forward self x) fw))
        \<and> snd (snd (run (forward self x) fw) ! k) = Inl e
      \<longrightarrow> fst (run (forward self x) fw) = Inl e
        \<and> Suc k = length (snd (run (forward self x) fw))) \<and>
   (\<forall>e. fst (run (forward self x) fw) = Inl e
      \<longrightarrow> snd (run (forward self x) fw) \<noteq> []
        \<and> snd (last (snd (run (forward self x) fw))) = Inl e)"
proof (intro conjI allI impI)
  fix k e
  assume "k < length (snd (run notebook fw)) \<and> snd (snd (run notebook fw) ! k) = Inl e
        \<and> \<not> is_shell (fst (snd (run notebook fw) ! k))"
  then show "fst (run notebook fw) = Inl e" and "Suc k = length (snd (run notebook fw))"
    using lawful_raise_ends [OF lawful_notebook, of k fw e] by simp_all
next
  fix e
  assume "fst (run notebook fw) = Inl e"
  from lawful_result_raised [OF lawful_notebook this]
  show "snd (run notebook fw) \<noteq> []" and "snd (last (snd (run notebook fw))) = Inl e"
    and "fw (length (snd (run notebook fw)) - 1) (fst (last (snd (run notebook fw)))) = Inl e"
    by simp_all
next
  fix k e
  let ?tr = "snd (run (forward self x) fw)"
  assume a: "k < length ?tr \<and> snd (?tr ! k) = Inl e"
  have "list_all (\<lambda>c. \<not> is_shell c) (map fst ?tr)"
    by (simp add: eval_simps forward_def is_shell_def split: sum.splits)
  then have "\<not> is_shell (fst (?tr ! k))" using a by (simp add: list_all_length)
  then show "fst (run (forward self x) fw) = Inl e" and "Suc k = length ?tr"
    using lawful_raise_ends [OF lawful_forward, of k self x fw e] a by simp_all
next
  fix e
  assume "fst (run (forward self x) fw) = Inl e"
  from lawful_result_raised [OF lawful_forward this]
  show "snd (run (forward self x) fw) \<noteq> []"
    and "snd (last (snd (run (forward self x) fw))) = Inl e"
    by simp_all
qed

lemma run_failing_at_8:
  "run notebook (failing_at 8 (Exn ''dataset download failed''))
     = (Inl (Exn ''dataset download failed''),
        zip (take 9 script) (map Inr [0, 1, 2, 3, 4, 5, 6, 7] @ [Inl (Exn ''dataset download failed'')]))"
  by (simp add: script_eq notebook_defs eval_simps failing_at_def)

theorem errors_propagate_unchanged_witness:
  "snd (snd (run notebook (failing_at 8 (Exn ''dataset download failed''))) ! 8)
     = Inl (Exn ''dataset download failed'') \<and>
   fst (run notebook (failing_at 8 (Exn ''dataset download failed'')))
     = Inl (Exn ''dataset download failed'') \<and>
   length (snd (run notebook (failing_at 8 (Exn ''dataset download failed'')))) = 9"
proof -
  let ?fw = "failing_at 8 (Exn ''dataset download failed'')"
  have hyp: "8 < length (snd (run notebook ?fw))
      \<and> snd (snd (run notebook ?fw) ! 8) = Inl (Exn ''dataset download failed'')
      \<and> \<not> is_shell (fst (snd (run notebook ?fw) ! 8))"
    by (simp add: run_failing_at_8 script_eq is_shell_def)
  from errors_propagate_unchanged [of ?fw, THEN conjunct1, rule_format, OF hyp]
  have "fst (run notebook ?fw) = Inl (Exn ''dataset download failed'')
      \<and> Suc 8 = length (snd (run notebook ?fw))" .
  then show ?thesis using hyp by simp
qed

lemma prebuilt_method: "m \<notin> set Net_methods \<Longrightarrow> prebuilt bound (Method obj m args kw)"
  by (cases obj) simp_all

lemma forward_steps:
  "prefix (steps (snd (run (forward self x) fw)))
     [''__call__'', ''F.relu'', ''__call__'', ''__call__'', ''F.relu'', ''__call__'',
      ''torch.flatten'', ''__call__'', ''F.relu'', ''__call__'', ''F.relu'', ''__call__'']"
  by (simp add: steps_def eval_simps forward_def split: sum.split)

lemma forward_steps_complete:
  "fst (run (forward self x) fw) = Inr v \<longrightarrow> steps (snd (run (forward self x) fw)) =
     [''__call__'', ''F.relu'', ''__call__'', ''__call__'', ''F.relu'', ''__call__'',
      ''torch.flatten'', ''__call__'', ''F.relu'', ''__call__'', ''F.relu'', ''__call__'']"
  by (simp add: steps_def eval_simps forward_def split: sum.split)

lemma forward_prebuilt:
  "prebuilt_only [''F'', ''torch''] (map fst (snd (run (forward self x) fw)))"
  by (simp add: eval_simps forward_def prebuilt_method Net_methods_def module_root_def
      split: sum.split)

text \<open>
  C4. Each step is a call into imported code, and the notebook adds no control flow of its
  own. Of two runs of the notebook, against any two behaviours of the libraries, one goes
  through the same steps as the other as far as it gets, and two runs that complete go
  through the same steps: which step comes next never depends on an answer, and no step is
  tried again. No run has more than 30 events. Every callable that is invoked is reached
  from a name that an earlier import bound, and no event is a call of a method that the
  notebook defines. \<open>Net.forward\<close> is the same kind of code: its twelve calls are fixed,
  and they go to the layer objects, to \<open>F\<close> and to \<open>torch\<close>.
\<close>

theorem straight_line_prebuilt_calls:
  "(prefix (steps (snd (run notebook fw))) (steps (snd (run notebook fw')))
      \<or> prefix (steps (snd (run notebook fw'))) (steps (snd (run notebook fw)))) \<and>
   (fst (run notebook fw) = Inr () \<and> fst (run notebook fw') = Inr ()
      \<longrightarrow> steps (snd (run notebook fw)) = steps (snd (run notebook fw'))) \<and>
   length (snd (run notebook fw)) \<le> 30 \<and>
   prebuilt_only [] (map fst (snd (run notebook fw))) \<and>
   prefix (steps (snd (run (forward self x) fw)))
     [''__call__'', ''F.relu'', ''__call__'', ''__call__'', ''F.relu'', ''__call__'',
      ''torch.flatten'', ''__call__'', ''F.relu'', ''__call__'', ''F.relu'', ''__call__''] \<and>
   (fst (run (forward self x) fw) = Inr v \<longrightarrow> steps (snd (run (forward self x) fw)) =
     [''__call__'', ''F.relu'', ''__call__'', ''__call__'', ''F.relu'', ''__call__'',
      ''torch.flatten'', ''__call__'', ''F.relu'', ''__call__'', ''F.relu'', ''__call__'']) \<and>
   prebuilt_only [''F'', ''torch''] (map fst (snd (run (forward self x) fw)))"
proof (intro conjI impI)
  show "prefix (steps (snd (run notebook fw))) (steps (snd (run notebook fw')))
      \<or> prefix (steps (snd (run notebook fw'))) (steps (snd (run notebook fw)))"
    using notebook_steps [of fw] notebook_steps [of fw'] by (rule prefix_same_cases)
  show "steps (snd (run notebook fw)) = steps (snd (run notebook fw'))"
    if "fst (run notebook fw) = Inr () \<and> fst (run notebook fw') = Inr ()"
    using that by (simp add: notebook_steps_complete)
  show "length (snd (run notebook fw)) \<le> 30" by (rule notebook_length)
  show "prebuilt_only [] (map fst (snd (run notebook fw)))" by (rule notebook_prebuilt)
  show "prefix (steps (snd (run (forward self x) fw)))
     [''__call__'', ''F.relu'', ''__call__'', ''__call__'', ''F.relu'', ''__call__'',
      ''torch.flatten'', ''__call__'', ''F.relu'', ''__call__'', ''F.relu'', ''__call__'']"
    by (rule forward_steps)
  show "steps (snd (run (forward self x) fw)) =
     [''__call__'', ''F.relu'', ''__call__'', ''__call__'', ''F.relu'', ''__call__'',
      ''torch.flatten'', ''__call__'', ''F.relu'', ''__call__'', ''F.relu'', ''__call__'']"
    if "fst (run (forward self x) fw) = Inr v"
    using that forward_steps_complete [of self x fw v] by simp
  show "prebuilt_only [''F'', ''torch''] (map fst (snd (run (forward self x) fw)))"
    by (rule forward_prebuilt)
qed

lemma steps_failing_at_8:
  "steps (snd (run notebook (failing_at 8 (Exn ''dataset download failed'')))) = map callee (take 9 script)"
  by (simp add: steps_def run_failing_at_8 script_eq)

lemma steps_fresh: "steps (snd (run notebook fresh)) = map callee script"
  by (simp add: steps_def script_fresh)

theorem straight_line_prebuilt_calls_witness:
  "fst (run notebook fresh) = Inr () \<and>
   prefix (steps (snd (run notebook (failing_at 8 (Exn ''dataset download failed'')))))
     (steps (snd (run notebook fresh))) \<and>
   length (snd (run notebook fresh)) = 30 \<and>
   prebuilt_only [] (map fst (snd (run notebook fresh)))"
proof -
  have "prebuilt_only [] (map fst (snd (run notebook fresh)))"
    using straight_line_prebuilt_calls [of fresh] by blast
  moreover have "prefix (steps (snd (run notebook (failing_at 8 (Exn ''dataset download failed'')))))
     (steps (snd (run notebook fresh)))"
    unfolding steps_failing_at_8 steps_fresh by (rule map_mono_prefix [OF take_is_prefix])
  moreover have "length (snd (run notebook fresh)) = 30"
    using script_length by (simp add: script_def)
  ultimately show ?thesis using run_fresh by simp
qed

lemma before_prefix:
  assumes "prefix xs ys" and "before a b ys"
  shows "before a b xs"
proof -
  from assms(1) obtain zs where ys: "ys = xs @ zs" by (auto simp: prefix_def)
  show ?thesis
  proof (cases "b \<in> set xs")
    case True
    then have "takeWhile (\<lambda>n. n \<noteq> b) ys = takeWhile (\<lambda>n. n \<noteq> b) xs"
      and "dropWhile (\<lambda>n. n \<noteq> b) ys = dropWhile (\<lambda>n. n \<noteq> b) xs @ zs"
      unfolding ys by (simp_all add: takeWhile_append1 dropWhile_append1)
    then show ?thesis using assms(2) True ys by (simp add: before_def)
  next
    case False
    then have dw: "dropWhile (\<lambda>n. n \<noteq> b) xs = []" by (auto simp: dropWhile_eq_Nil_conv)
    show ?thesis unfolding before_def dw using False by simp
  qed
qed

lemma script_steps: "map callee script =
    [''pip install ColossalAI deepspeed'',
     ''colossalai'', ''colossalai.engine'', ''colossalai.trainer'', ''colossalai.context'',
     ''torch'',
     ''Config'', ''colossalai.init_dist'',
     ''colossalai.nn.data.CIFAR10Dataset'', ''torch.utils.data.DataLoader'',
     ''colossalai.nn.data.CIFAR10Dataset'', ''torch.utils.data.DataLoader'',
     ''torch.nn'', ''torch.nn.functional'',
     ''nn.Module.__init__'', ''nn.Conv2d'', ''nn.MaxPool2d'', ''nn.Conv2d'',
     ''nn.Linear'', ''nn.Linear'', ''nn.Linear'', ''cuda'',
     ''torch.optim'', ''nn.CrossEntropyLoss'', ''parameters'', ''optim.SGD'',
     ''NoPipelineSchedule'', ''Engine'', ''Trainer'',
     ''fit'']"
  by (simp add: script_eq)

lemma script_before:
  "before ''colossalai.init_dist'' ''colossalai.nn.data.CIFAR10Dataset'' (map callee script)"
  "before ''torch.utils.data.DataLoader'' ''nn.Module.__init__'' (map callee script)"
  "before ''torch.utils.data.DataLoader'' ''Engine'' (map callee script)"
  "before ''cuda'' ''Engine'' (map callee script)"
  "before ''Trainer'' ''fit'' (map callee script)"
  by (simp_all add: script_steps before_def)

lemma script_fit_at:
  "(k, c) \<in> set (enumerate 0 script) \<Longrightarrow> callee c = ''fit'' \<Longrightarrow> k = 29"
  by (auto simp: script_eq)

lemma script_imports:
  "c \<in> set script \<Longrightarrow> binds c \<noteq> [] \<Longrightarrow>
     module_root (callee c) = ''colossalai'' \<or> module_root (callee c) = ''torch''"
  by (auto simp: script_eq module_root_def)

lemma notebook_dataflow:
  assumes "k < length (snd (run notebook fw))"
    and "obj \<in> set_call (fst (snd (run notebook fw) ! k))"
  shows "\<exists>j<k. snd (snd (run notebook fw) ! j) = Inr obj"
proof -
  let ?tr = "snd (run notebook fw)"
  let ?h = "obj_at ?tr"
  have "obj \<in> ?h ` set_call (script ! k)"
    using assms(2) notebook_call(2) [OF assms(1)] by (simp add: call.set_map)
  then obtain j where j: "j \<in> set_call (script ! k)" "obj = ?h j" by blast
  have "k < length script" using notebook_call(1) [OF assms(1)] by (simp add: script_length)
  from script_scope [OF nth_enumerate_mem [OF this] j(1)] have jk: "0 < j" "j < k" by simp_all
  then have "snd (?tr ! j) = Inr (?h j)" using assms(1) by (intro notebook_result) simp_all
  then show ?thesis using jk(2) j(2) by blast
qed

lemma fresh_call: "k < 30 \<Longrightarrow> fst (snd (run notebook fresh) ! k) = script ! k"
  using script_length by (simp add: script_def)

text \<open>
  C7, as stated, has the script run against one external dependency. The run imports two
  packages, \<open>colossalai\<close> and \<open>torch\<close>, and calls into both; no single root serves all
  its imports. (The first cell also installs a third package, \<open>deepspeed\<close>, which is
  never imported.)
\<close>

theorem one_dependency_counterexample:
  "fst (snd (run notebook fresh) ! 0) = Shell ''pip install ColossalAI deepspeed'' \<and>
   binds (fst (snd (run notebook fresh) ! 1)) = [''colossalai''] \<and>
   binds (fst (snd (run notebook fresh) ! 5)) = [''torch''] \<and>
   callee (fst (snd (run notebook fresh) ! 7)) = ''colossalai.init_dist'' \<and>
   callee (fst (snd (run notebook fresh) ! 9)) = ''torch.utils.data.DataLoader'' \<and>
   \<not> (\<exists>r. \<forall>c \<in> set (map fst (snd (run notebook fresh))).
          binds c \<noteq> [] \<longrightarrow> module_root (callee c) = r)"
proof (intro conjI notI)
  show "fst (snd (run notebook fresh) ! 0) = Shell ''pip install ColossalAI deepspeed''"
    and "binds (fst (snd (run notebook fresh) ! 1)) = [''colossalai'']"
    and "binds (fst (snd (run notebook fresh) ! 5)) = [''torch'']"
    and "callee (fst (snd (run notebook fresh) ! 7)) = ''colossalai.init_dist''"
    and "callee (fst (snd (run notebook fresh) ! 9)) = ''torch.utils.data.DataLoader''"
    by (simp_all add: fresh_call script_eq module_root_def)
next
  assume "\<exists>r. \<forall>c \<in> set (map fst (snd (run notebook fresh))).
          binds c \<noteq> [] \<longrightarrow> module_root (callee c) = r"
  then obtain r where r: "\<forall>c \<in> set script. binds c \<noteq> [] \<longrightarrow> module_root (callee c) = r"
    unfolding script_fresh by blast
  have "Import ''colossalai'' \<in> set script" and "Import ''torch'' \<in> set script"
    by (simp_all add: script_eq)
  with r have "module_root ''colossalai'' = r" and "module_root ''torch'' = r"
    by (fastforce simp: module_root_def)+
  then have "module_root ''colossalai'' = module_root ''torch''" by simp
  then show False by (simp add: module_root_def)
qed

text \<open>
  C7, amended. The notebook is a linear script against the two libraries it imports,
  the framework \<open>colossalai\<close> and \<open>torch\<close> under it: every import, in every run, is of
  one of the two or of a module inside it. The steps of every run are an initial part of
  one fixed sequence of thirty, and all of it when the run completes. In every run
  \<open>init_dist\<close> comes before the first dataset, the data loaders before the model and the
  engine are built, the model before the engine, the trainer before \<open>fit\<close>, and \<open>fit\<close>
  is followed by nothing. Every object that a call is given was returned by an earlier
  event of the same run.
\<close>

theorem fixed_sequence_and_dataflow:
  "prefix (steps (snd (run notebook fw)))
    [''pip install ColossalAI deepspeed'',
     ''colossalai'', ''colossalai.engine'', ''colossalai.trainer'', ''colossalai.context'',
     ''torch'',
     ''Config'', ''colossalai.init_dist'',
     ''colossalai.nn.data.CIFAR10Dataset'', ''torch.utils.data.DataLoader'',
     ''colossalai.nn.data.CIFAR10Dataset'', ''torch.utils.data.DataLoader'',
     ''torch.nn'', ''torch.nn.functional'',
     ''nn.Module.__init__'', ''nn.Conv2d'', ''nn.MaxPool2d'', ''nn.Conv2d'',
     ''nn.Linear'', ''nn.Linear'', ''nn.Linear'', ''cuda'',
     ''torch.optim'', ''nn.CrossEntropyLoss'', ''parameters'', ''optim.SGD'',
     ''NoPipelineSchedule'', ''Engine'', ''Trainer'',
     ''fit''] \<and>
   (fst (run notebook fw) = Inr () \<longrightarrow>
      length (steps (snd (run notebook fw))) = 30 \<and> last (steps (snd (run notebook fw))) = ''fit'') \<and>
   before ''colossalai.init_dist'' ''colossalai.nn.data.CIFAR10Dataset'' (steps (snd (run notebook fw))) \<and>
   before ''torch.utils.data.DataLoader'' ''nn.Module.__init__'' (steps (snd (run notebook fw))) \<and>
   before ''torch.utils.data.DataLoader'' ''Engine'' (steps (snd (run notebook fw))) \<and>
   before ''cuda'' ''Engine'' (steps (snd (run notebook fw))) \<and>
   before ''Trainer'' ''fit'' (steps (snd (run notebook fw))) \<and>
   (\<forall>k<length (snd (run notebook fw)).
      callee (fst (snd (run notebook fw) ! k)) = ''fit'' \<longrightarrow> Suc k = length (snd (run notebook fw))) \<and>
   (\<forall>k<length (snd (run notebook fw)). \<forall>obj \<in> set_call (fst (snd (run notebook fw) ! k)).
      \<exists>j<k. snd (snd (run notebook fw) ! j) = Inr obj) \<and>
   (\<forall>c \<in> set (map fst (snd (run notebook fw))). binds c \<noteq> [] \<longrightarrow>
      module_root (callee c) = ''colossalai'' \<or> module_root (callee c) = ''torch'')"
proof (intro conjI impI allI ballI)
  let ?tr = "snd (run notebook fw)"
  show "prefix (steps ?tr)
    [''pip install ColossalAI deepspeed'',
     ''colossalai'', ''colossalai.engine'', ''colossalai.trainer'', ''colossalai.context'',
     ''torch'',
     ''Config'', ''colossalai.init_dist'',
     ''colossalai.nn.data.CIFAR10Dataset'', ''torch.utils.data.DataLoader'',
     ''colossalai.nn.data.CIFAR10Dataset'', ''torch.utils.data.DataLoader'',
     ''torch.nn'', ''torch.nn.functional'',
     ''nn.Module.__init__'', ''nn.Conv2d'', ''nn.MaxPool2d'', ''nn.Conv2d'',
     ''nn.Linear'', ''nn.Linear'', ''nn.Linear'', ''cuda'',
     ''torch.optim'', ''nn.CrossEntropyLoss'', ''parameters'', ''optim.SGD'',
     ''NoPipelineSchedule'', ''Engine'', ''Trainer'',
     ''fit'']"
    using notebook_steps [of fw] unfolding script_steps .
  show "length (steps ?tr) = 30" and "last (steps ?tr) = ''fit''"
    if "fst (run notebook fw) = Inr ()"
    unfolding notebook_steps_complete [OF that] script_steps by simp_all
  show "before ''colossalai.init_dist'' ''colossalai.nn.data.CIFAR10Dataset'' (steps ?tr)"
    and "before ''torch.utils.data.DataLoader'' ''nn.Module.__init__'' (steps ?tr)"
    and "before ''torch.utils.data.DataLoader'' ''Engine'' (steps ?tr)"
    and "before ''cuda'' ''Engine'' (steps ?tr)"
    and "before ''Trainer'' ''fit'' (steps ?tr)"
    by (rule before_prefix [OF notebook_steps script_before(1)],
        rule before_prefix [OF notebook_steps script_before(2)],
        rule before_prefix [OF notebook_steps script_before(3)],
        rule before_prefix [OF notebook_steps script_before(4)],
        rule before_prefix [OF notebook_steps script_before(5)])
next
  let ?tr = "snd (run notebook fw)"
  fix k
  assume k: "k < length ?tr" and fit: "callee (fst (?tr ! k)) = ''fit''"
  have "callee (script ! k) = ''fit''" using fit notebook_call(2) [OF k] by simp
  then have "k = 29"
    using script_fit_at [OF nth_enumerate_mem, of k] notebook_call(1) [OF k]
    by (simp add: script_length)
  then show "Suc k = length ?tr" using k notebook_length [of fw] by simp
next
  fix k obj
  assume "k < length (snd (run notebook fw))"
    and "obj \<in> set_call (fst (snd (run notebook fw) ! k))"
  then show "\<exists>j<k. snd (snd (run notebook fw) ! j) = Inr obj" by (rule notebook_dataflow)
next
  fix c
  assume "c \<in> set (map fst (snd (run notebook fw)))" and b: "binds c \<noteq> []"
  from notebook_call_mem [OF this(1)] obtain c' where
    c': "c' \<in> set script" "c = map_call (obj_at (snd (run notebook fw))) c'" by blast
  then show "module_root (callee c) = ''colossalai'' \<or> module_root (callee c) = ''torch''"
    using script_imports [OF c'(1)] b by simp
qed

theorem fixed_sequence_and_dataflow_witness:
  "fst (run notebook fresh) = Inr () \<and>
   length (steps (snd (run notebook fresh))) = 30 \<and>
   last (steps (snd (run notebook fresh))) = ''fit'' \<and>
   steps (snd (run notebook fresh)) ! 7 = ''colossalai.init_dist'' \<and>
   steps (snd (run notebook fresh)) ! 8 = ''colossalai.nn.data.CIFAR10Dataset''"
proof -
  from fixed_sequence_and_dataflow [of fresh] run_fresh
  have "length (steps (snd (run notebook fresh))) = 30 \<and> last (steps (snd (run notebook fresh))) = ''fit''"
    by blast
  then show ?thesis using run_fresh by (simp add: steps_fresh script_steps)
qed





lemma script_loaders: "filter (\<lambda>c. callee c = ''torch.utils.data.DataLoader'') script =
    [Invoke ''torch.utils.data.DataLoader'' [VObj 8]
       [(''batch_size'', VInt 128), (''shuffle'', VBool True), (''num_workers'', VInt 2)],
     Invoke ''torch.utils.data.DataLoader'' [VObj 10]
       [(''batch_size'', VInt 128), (''shuffle'', VBool False), (''num_workers'', VInt 2)]]"
  by (simp add: script_eq)

lemma script_at_8_10:
  "script ! 8 = Invoke ''colossalai.nn.data.CIFAR10Dataset'' [transform_cfg]
       [(''root'', VStr ''./data''), (''train'', VBool True)]"
  "script ! 10 = Invoke ''colossalai.nn.data.CIFAR10Dataset'' [transform_cfg]
       [(''root'', VStr ''./data''), (''train'', VBool False)]"
  by (simp_all add: script_eq)

lemma map_transform_cfg [simp]: "map_val h transform_cfg = transform_cfg"
  by (simp add: transform_cfg_def)

lemma reversing_draw:
  assumes "2 \<le> n"
  shows "[0..<n] \<noteq> rev [0..<n]"
proof
  assume "[0..<n] = rev [0..<n]"
  then have "hd [0..<n] = hd (rev [0..<n])" by simp
  moreover have "hd (rev [0..<n]) = n - 1" using assms by (simp add: hd_rev)
  moreover have "hd [0..<n] = 0" using assms by (simp add: upt_conv_Cons)
  ultimately show False using assms by simp
qed

text \<open>
  C9. The loader of the training set shuffles and the loader of the test set does not.
  In any run the calls of \<open>DataLoader\<close> are at most two, the first with \<open>shuffle=True\<close>,
  the second with \<open>shuffle=False\<close>. In a run that completes the first is built on the
  dataset made with \<open>train=True\<close> and the second on the one made with \<open>train=False\<close>;
  the test loader visits the samples in the same order in any two passes, whatever the
  sampler draws; and for the training loader there is a sampler, drawing a permutation in
  every pass, under which two passes differ, as soon as there are two samples.
\<close>

theorem test_order_fixed_train_order_shuffled:
  "prefix (map (\<lambda>c. kwarg c ''shuffle'')
             (calls_to ''torch.utils.data.DataLoader'' (snd (run notebook fw))))
          [Some (VBool True), Some (VBool False)] \<and>
   (fst (run notebook fw) = Inr () \<longrightarrow>
      (\<exists>train_ld test_ld trainset testset.
         calls_to ''torch.utils.data.DataLoader'' (snd (run notebook fw)) = [train_ld, test_ld] \<and>
         posargs train_ld = [VObj trainset] \<and> posargs test_ld = [VObj testset] \<and>
         (Invoke ''colossalai.nn.data.CIFAR10Dataset'' [transform_cfg]
            [(''root'', VStr ''./data''), (''train'', VBool True)], Inr trainset)
           \<in> set (snd (run notebook fw)) \<and>
         (Invoke ''colossalai.nn.data.CIFAR10Dataset'' [transform_cfg]
            [(''root'', VStr ''./data''), (''train'', VBool False)], Inr testset)
           \<in> set (snd (run notebook fw)) \<and>
         kwarg train_ld ''shuffle'' = Some (VBool True) \<and>
         kwarg test_ld ''shuffle'' = Some (VBool False) \<and>
         (\<forall>draw p q n. sample_order test_ld draw p n = sample_order test_ld draw q n) \<and>
         (\<forall>n\<ge>2. \<exists>draw p q.
            (\<forall>pass xs. set (draw pass xs) = set xs \<and> length (draw pass xs) = length xs) \<and>
            sample_order train_ld draw p n \<noteq> sample_order train_ld draw q n)))"
proof (intro conjI impI)
  let ?tr = "snd (run notebook fw)"
  let ?h = "obj_at ?tr"
  have "prefix (map (\<lambda>c. kwarg c ''shuffle'') (calls_to ''torch.utils.data.DataLoader'' ?tr))
      (map (\<lambda>c. kwarg c ''shuffle'')
         (map (map_call ?h) (filter (\<lambda>c. callee c = ''torch.utils.data.DataLoader'') script)))"
    by (rule map_mono_prefix [OF notebook_calls_to])
  then show "prefix (map (\<lambda>c. kwarg c ''shuffle'') (calls_to ''torch.utils.data.DataLoader'' ?tr))
      [Some (VBool True), Some (VBool False)]"
    by (simp add: script_loaders)
next
  let ?tr = "snd (run notebook fw)"
  let ?h = "obj_at ?tr"
  let ?train_ld = "Invoke ''torch.utils.data.DataLoader'' [VObj (?h 8)]
       [(''batch_size'', VInt 128), (''shuffle'', VBool True), (''num_workers'', VInt 2)]"
  let ?test_ld = "Invoke ''torch.utils.data.DataLoader'' [VObj (?h 10)]
       [(''batch_size'', VInt 128), (''shuffle'', VBool False), (''num_workers'', VInt 2)]"
  assume ok: "fst (run notebook fw) = Inr ()"
  have len: "length ?tr = 30"
    using arg_cong [OF notebook_complete [OF ok], of length] by (simp add: script_length)
  have loaders: "calls_to ''torch.utils.data.DataLoader'' ?tr = [?train_ld, ?test_ld]"
    by (simp add: notebook_calls_to_complete [OF ok] script_loaders)
  have "(map_call ?h (script ! 8), Inr (?h 8)) \<in> set ?tr"
    and "(map_call ?h (script ! 10), Inr (?h 10)) \<in> set ?tr"
    using len by (intro notebook_event; simp)+
  then have sets: "(Invoke ''colossalai.nn.data.CIFAR10Dataset'' [transform_cfg]
            [(''root'', VStr ''./data''), (''train'', VBool True)], Inr (?h 8)) \<in> set ?tr"
    "(Invoke ''colossalai.nn.data.CIFAR10Dataset'' [transform_cfg]
            [(''root'', VStr ''./data''), (''train'', VBool False)], Inr (?h 10)) \<in> set ?tr"
    by (simp_all add: script_at_8_10)
  have fixed: "\<forall>draw p q n. sample_order ?test_ld draw p n = sample_order ?test_ld draw q n"
    by (simp add: sample_order_def)
  have shuffled: "\<forall>n\<ge>2. \<exists>draw p q.
        (\<forall>pass xs. set (draw pass xs) = set xs \<and> length (draw pass xs) = length xs) \<and>
        sample_order ?train_ld draw p n \<noteq> sample_order ?train_ld draw q n"
  proof (intro allI impI)
    fix n :: nat
    assume n: "2 \<le> n"
    let ?draw = "\<lambda>pass xs. if pass = (0::nat) then xs else rev (xs :: nat list)"
    have "(\<forall>pass xs. set (?draw pass xs) = set xs \<and> length (?draw pass xs) = length xs) \<and>
        sample_order ?train_ld ?draw 0 n \<noteq> sample_order ?train_ld ?draw 1 n"
      using reversing_draw [OF n] by (simp add: sample_order_def)
    then show "\<exists>draw p q.
        (\<forall>pass xs. set (draw pass xs) = set xs \<and> length (draw pass xs) = length xs) \<and>
        sample_order ?train_ld draw p n \<noteq> sample_order ?train_ld draw q n"
      by (intro exI [of _ ?draw] exI [of _ 0] exI [of _ 1])
  qed
  show "\<exists>train_ld test_ld trainset testset.
         calls_to ''torch.utils.data.DataLoader'' ?tr = [train_ld, test_ld] \<and>
         posargs train_ld = [VObj trainset] \<and> posargs test_ld = [VObj testset] \<and>
         (Invoke ''colossalai.nn.data.CIFAR10Dataset'' [transform_cfg]
            [(''root'', VStr ''./data''), (''train'', VBool True)], Inr trainset) \<in> set ?tr \<and>
         (Invoke ''colossalai.nn.data.CIFAR10Dataset'' [transform_cfg]
            [(''root'', VStr ''./data''), (''train'', VBool False)], Inr testset) \<in> set ?tr \<and>
         kwarg train_ld ''shuffle'' = Some (VBool True) \<and>
         kwarg test_ld ''shuffle'' = Some (VBool False) \<and>
         (\<forall>draw p q n. sample_order test_ld draw p n = sample_order test_ld draw q n) \<and>
         (\<forall>n\<ge>2. \<exists>draw p q.
            (\<forall>pass xs. set (draw pass xs) = set xs \<and> length (draw pass xs) = length xs) \<and>
            sample_order train_ld draw p n \<noteq> sample_order train_ld draw q n)"
    using loaders sets fixed shuffled
    by (intro exI [of _ ?train_ld] exI [of _ ?test_ld] exI [of _ "?h 8"] exI [of _ "?h 10"]) simp
qed

theorem test_order_fixed_train_order_shuffled_witness:
  "fst (run notebook fresh) = Inr () \<and>
   map (\<lambda>c. kwarg c ''shuffle'')
     (calls_to ''torch.utils.data.DataLoader'' (snd (run notebook fresh)))
   = [Some (VBool True), Some (VBool False)] \<and>
   sample_order (calls_to ''torch.utils.data.DataLoader'' (snd (run notebook fresh)) ! 1)
     (\<lambda>pass xs. rev xs) 0 3 = [0, 1, 2] \<and>
   sample_order (calls_to ''torch.utils.data.DataLoader'' (snd (run notebook fresh)) ! 0)
     (\<lambda>pass xs. rev xs) 0 3 = [2, 1, 0]"
proof -
  have "prefix (map (\<lambda>c. kwarg c ''shuffle'')
             (calls_to ''torch.utils.data.DataLoader'' (snd (run notebook fresh))))
          [Some (VBool True), Some (VBool False)]"
    using test_order_fixed_train_order_shuffled [of fresh] by blast
  moreover have "calls_to ''torch.utils.data.DataLoader'' (snd (run notebook fresh)) =
    [Invoke ''torch.utils.data.DataLoader'' [VObj 8]
       [(''batch_size'', VInt 128), (''shuffle'', VBool True), (''num_workers'', VInt 2)],
     Invoke ''torch.utils.data.DataLoader'' [VObj 10]
       [(''batch_size'', VInt 128), (''shuffle'', VBool False), (''num_workers'', VInt 2)]]"
    by (simp add: calls_to_def script_fresh script_loaders)
  ultimately show ?thesis using run_fresh
    by (simp add: sample_order_def upt_rec)
qed


lemma val_strings_map [simp]: "val_strings (map_val h v) = val_strings v"
  by (induction v) (auto intro!: arg_cong [where f = concat])

lemma call_strings_map [simp]: "call_strings (map_call h c) = call_strings c"
  by (cases c) (auto simp: comp_def)





end
